theory Spec2Isabelle
  imports Main "HOL-Library.Word" "HOL-Library.Sublist"
begin

unbundle bit_operations_syntax

section \<open>The Wishbone bus transactor (bench/cpp/wbflash\_tb.h)\<close>

text \<open>
  The C++ test bench drives a Verilated core through its pins. The core is opaque: it is
  a parameter of every definition below, a step function that takes the core's internal
  state and the request pins presented on one clock and returns the new internal state
  and the three response pins (stall, acknowledge, read data). One-bit pins are
  \<open>bool\<close> (the code only tests them for zero), address and data are 32-bit words,
  \<open>int errcount\<close> is an \<open>int\<close> (it never leaves the range 0 .. 2 * BOMBCOUNT + 2),
  \<open>unsigned\<close> counters are \<open>nat\<close>.

  A failed \<open>assert\<close> aborts the process: it is the error value \<open>AssertionFailed\<close>.
  A store through \<open>buf\<close> outside the caller's array is undefined behaviour in C++: it is
  the error value \<open>BufferOverrun\<close>. The loops \<open>while (o_wb_stall) tick()\<close> have no
  bound: the functions that contain one return an \<open>option\<close>, \<open>None\<close> for a run
  that never returns.
\<close>

type_synonym u32 = "32 word"

datatype error = AssertionFailed | BufferOverrun

record wb_pins =
  p_cyc :: bool
  p_data_stb :: bool
  p_ctrl_stb :: bool
  p_we :: bool
  p_addr :: u32
  p_data :: u32

type_synonym 'd dut = "'d \<Rightarrow> wb_pins \<Rightarrow> 'd \<times> bool \<times> bool \<times> u32"

text \<open>
  The object: the members of \<open>WBFLASH_TB\<close> and of its base \<open>TESTB\<close>, with the pins
  of \<open>m_core\<close> flattened into it. \<open>m_core\<close> is the core's internal state (for the
  flash test benches it also holds the flash model that their \<open>tick()\<close> lets exchange
  one SPI sample with the core before the parent's \<open>tick()\<close> runs). \<open>m_trace\<close> is the
  waveform: the request pins of every clock so far.
\<close>

record 'd wbflash_tb =
  m_core :: 'd
  i_wb_cyc :: bool
  i_wb_data_stb :: bool
  i_wb_ctrl_stb :: bool
  i_wb_we :: bool
  i_wb_addr :: u32
  i_wb_data :: u32
  o_wb_stall :: bool
  o_wb_ack :: bool
  o_wb_data :: u32
  m_tickcount :: nat
  m_trace :: "wb_pins list"
  m_ack_expected :: bool
  m_bomb :: bool

definition BOMBCOUNT :: int where
  "BOMBCOUNT = 2048"

definition request_pins :: "('d, 'z) wbflash_tb_scheme \<Rightarrow> wb_pins" where
  "request_pins s =
     \<lparr>p_cyc = i_wb_cyc s, p_data_stb = i_wb_data_stb s, p_ctrl_stb = i_wb_ctrl_stb s,
      p_we = i_wb_we s, p_addr = i_wb_addr s, p_data = i_wb_data s\<rparr>"

text \<open>
  Modelled from the spec: \<open>TESTB<VA>::tick\<close> (testb.h is not among the sources). One
  clock tick is the atomic unit of simulated time; the transactor is the sole writer of
  the request signals and the core the sole writer of the response signals. So a tick
  hands the request pins to the core, stores the core's answer in the response pins,
  counts the tick and records the request pins in the waveform.
\<close>

definition testb_tick ::
  "'d dut \<Rightarrow> ('d, 'z) wbflash_tb_scheme \<Rightarrow> ('d, 'z) wbflash_tb_scheme" where
  "testb_tick dut s =
     (case dut (m_core s) (request_pins s) of (d', stall, ack, dat) \<Rightarrow>
        s\<lparr>m_core := d', o_wb_stall := stall, o_wb_ack := ack, o_wb_data := dat,
          m_tickcount := m_tickcount s + 1, m_trace := m_trace s @ [request_pins s]\<rparr>)"

text \<open>\<open>WBFLASH_TB::tick\<close>: the parent's tick, then
  \<open>assert(i_wb_cyc || !o_wb_ack)\<close>.\<close>

definition tick ::
  "'d dut \<Rightarrow> ('d, 'z) wbflash_tb_scheme \<Rightarrow> error + ('d, 'z) wbflash_tb_scheme" where
  "tick dut s =
     (let s' = testb_tick dut s
      in if i_wb_cyc s' \<or> \<not> o_wb_ack s' then Inr s' else Inl AssertionFailed)"

text \<open>The constructor \<open>WBFLASH_TB(void)\<close>, applied to the object as its base class
  constructor left it.\<close>

definition WBFLASH_TB :: "('d, 'z) wbflash_tb_scheme \<Rightarrow> ('d, 'z) wbflash_tb_scheme" where
  "WBFLASH_TB obj =
     obj\<lparr>m_bomb := False, m_ack_expected := False, i_wb_cyc := False,
         i_wb_data_stb := False, i_wb_ctrl_stb := False\<rparr>"

subsection \<open>The bounded waits\<close>

text \<open>\<open>while ((errcount++ < BOMBCOUNT) && (o_wb_stall)) tick();\<close> The counter is
  incremented by every evaluation of the condition, also by the last one.\<close>

function wait_while_stalled ::
  "'d dut \<Rightarrow> int \<Rightarrow> ('d, 'z) wbflash_tb_scheme \<Rightarrow>
     error + (int \<times> ('d, 'z) wbflash_tb_scheme)" where
  "wait_while_stalled dut errcount s =
     (if errcount < BOMBCOUNT \<and> o_wb_stall s
      then (case tick dut s of
              Inl e \<Rightarrow> Inl e
            | Inr s' \<Rightarrow> wait_while_stalled dut (errcount + 1) s')
      else Inr (errcount + 1, s))"
  by pat_completeness auto
termination
  by (relation "measure (\<lambda>(dut, errcount, s). nat (BOMBCOUNT - errcount))") auto

text \<open>\<open>while ((errcount++ < BOMBCOUNT) && (!o_wb_ack)) tick();\<close>\<close>

function wait_for_ack ::
  "'d dut \<Rightarrow> int \<Rightarrow> ('d, 'z) wbflash_tb_scheme \<Rightarrow>
     error + (int \<times> ('d, 'z) wbflash_tb_scheme)" where
  "wait_for_ack dut errcount s =
     (if errcount < BOMBCOUNT \<and> \<not> o_wb_ack s
      then (case tick dut s of
              Inl e \<Rightarrow> Inl e
            | Inr s' \<Rightarrow> wait_for_ack dut (errcount + 1) s')
      else Inr (errcount + 1, s))"
  by pat_completeness auto
termination
  by (relation "measure (\<lambda>(dut, errcount, s). nat (BOMBCOUNT - errcount))") auto

text \<open>\<open>while (o_wb_stall) tick();\<close> at the end of the single-word operations and
  of the burst write: no bound.\<close>

partial_function (option) drain_stall ::
  "'d dut \<Rightarrow> ('d, 'z) wbflash_tb_scheme \<Rightarrow>
     (error + ('d, 'z) wbflash_tb_scheme) option" where
  "drain_stall dut s =
     (if o_wb_stall s
      then (case tick dut s of
              Inl e \<Rightarrow> Some (Inl e)
            | Inr s' \<Rightarrow> drain_stall dut s')
      else Some (Inr s))"

declare drain_stall.simps [code]
declare wait_while_stalled.simps [simp del]
declare wait_for_ack.simps [simp del]

subsection \<open>Single-word reads: \<open>wb_read(a)\<close> and \<open>wb_ctrl_read(a)\<close>\<close>

text \<open>
  The two functions have the same body but for the strobe they raise: \<open>ctrl\<close> says
  which. \<open>read_request\<close> is the body up to the end of the wait for the acknowledge
  (the strobe, the wait while stalled, the tick that registers the request, the strobe
  dropped, the wait for the acknowledge); it returns \<open>errcount\<close> with the object.
\<close>

definition read_request ::
  "'d dut \<Rightarrow> bool \<Rightarrow> u32 \<Rightarrow> ('d, 'z) wbflash_tb_scheme \<Rightarrow>
     error + (int \<times> ('d, 'z) wbflash_tb_scheme)" where
  "read_request dut ctrl a s =
     (let s1 = s\<lparr>i_wb_cyc := True, i_wb_data_stb := \<not> ctrl, i_wb_ctrl_stb := ctrl,
                 i_wb_we := False, i_wb_addr := drop_bit 2 a\<rparr>
      in case (if o_wb_stall s1 then wait_while_stalled dut 0 s1 else Inr (0, s1)) of
           Inl e \<Rightarrow> Inl e
         | Inr (errcount, s2) \<Rightarrow>
             (case tick dut s2 of
                Inl e \<Rightarrow> Inl e
              | Inr s3 \<Rightarrow>
                  wait_for_ack dut errcount
                    (s3\<lparr>i_wb_data_stb := False, i_wb_ctrl_stb := False\<rparr>)))"

text \<open>
  After the result is captured: \<open>m_ack_expected = false\<close>, the bus is released, and
  the fault flag is set when \<open>errcount >= BOMBCOUNT\<close> or else when no acknowledge is
  on the pins.
\<close>

definition read_release ::
  "int \<Rightarrow> ('d, 'z) wbflash_tb_scheme \<Rightarrow> ('d, 'z) wbflash_tb_scheme" where
  "read_release errcount s =
     (let s1 = s\<lparr>m_ack_expected := False, i_wb_cyc := False, i_wb_data_stb := False,
                 i_wb_ctrl_stb := False\<rparr>
      in if errcount \<ge> BOMBCOUNT then s1\<lparr>m_bomb := True\<rparr>
         else if \<not> o_wb_ack s1 then s1\<lparr>m_bomb := True\<rparr>
         else s1)"

text \<open>The end of every single-word operation and of the burst write: one more tick,
  \<open>assert(!o_wb_ack)\<close>, then the trailing stall is drained.\<close>

definition tick_assert_drain ::
  "'d dut \<Rightarrow> ('d, 'z) wbflash_tb_scheme \<Rightarrow>
     (error + ('d, 'z) wbflash_tb_scheme) option" where
  "tick_assert_drain dut s =
     (case tick dut s of
        Inl e \<Rightarrow> Some (Inl e)
      | Inr s' \<Rightarrow> if o_wb_ack s' then Some (Inl AssertionFailed) else drain_stall dut s')"

definition single_read ::
  "'d dut \<Rightarrow> bool \<Rightarrow> u32 \<Rightarrow> ('d, 'z) wbflash_tb_scheme \<Rightarrow>
     (error + (u32 \<times> ('d, 'z) wbflash_tb_scheme)) option" where
  "single_read dut ctrl a s =
     (case read_request dut ctrl a s of
        Inl e \<Rightarrow> Some (Inl e)
      | Inr (errcount, s4) \<Rightarrow>
          (let result = o_wb_data s4
           in case tick_assert_drain dut (read_release errcount s4) of
                None \<Rightarrow> None
              | Some (Inl e) \<Rightarrow> Some (Inl e)
              | Some (Inr s') \<Rightarrow> Some (Inr (result, s'))))"

definition wb_read ::
  "'d dut \<Rightarrow> u32 \<Rightarrow> ('d, 'z) wbflash_tb_scheme \<Rightarrow>
     (error + (u32 \<times> ('d, 'z) wbflash_tb_scheme)) option" where
  "wb_read dut a s = single_read dut False a s"

definition wb_ctrl_read ::
  "'d dut \<Rightarrow> u32 \<Rightarrow> ('d, 'z) wbflash_tb_scheme \<Rightarrow>
     (error + (u32 \<times> ('d, 'z) wbflash_tb_scheme)) option" where
  "wb_ctrl_read dut a s = single_read dut True a s"

subsection \<open>Single-word writes: \<open>wb_write(a, v)\<close> and \<open>wb_ctrl_write(a, v)\<close>\<close>

text \<open>
  Again one body for both, \<open>ctrl\<close> saying which strobe is raised. After the wait for
  the acknowledge the writes tick once more before they release the bus; the fault flag
  is set only when \<open>errcount >= BOMBCOUNT\<close>. The \<open>printf\<close> calls are left out.
\<close>

definition write_request ::
  "'d dut \<Rightarrow> bool \<Rightarrow> u32 \<Rightarrow> u32 \<Rightarrow> ('d, 'z) wbflash_tb_scheme \<Rightarrow>
     error + (int \<times> ('d, 'z) wbflash_tb_scheme)" where
  "write_request dut ctrl a v s =
     (let s1 = s\<lparr>i_wb_cyc := True, i_wb_data_stb := \<not> ctrl, i_wb_ctrl_stb := ctrl,
                 i_wb_we := True, i_wb_addr := drop_bit 2 a, i_wb_data := v\<rparr>
      in case (if o_wb_stall s1 then wait_while_stalled dut 0 s1 else Inr (0, s1)) of
           Inl e \<Rightarrow> Inl e
         | Inr (errcount, s2) \<Rightarrow>
             (case tick dut s2 of
                Inl e \<Rightarrow> Inl e
              | Inr s3 \<Rightarrow>
                  (case wait_for_ack dut errcount
                          (s3\<lparr>i_wb_data_stb := False, i_wb_ctrl_stb := False\<rparr>) of
                     Inl e \<Rightarrow> Inl e
                   | Inr (errcount', s4) \<Rightarrow>
                       (case tick dut s4 of
                          Inl e \<Rightarrow> Inl e
                        | Inr s5 \<Rightarrow> Inr (errcount', s5)))))"

definition write_release ::
  "int \<Rightarrow> ('d, 'z) wbflash_tb_scheme \<Rightarrow> ('d, 'z) wbflash_tb_scheme" where
  "write_release errcount s =
     (let s1 = s\<lparr>i_wb_cyc := False, i_wb_data_stb := False, i_wb_ctrl_stb := False,
                 m_ack_expected := False\<rparr>
      in if errcount \<ge> BOMBCOUNT then s1\<lparr>m_bomb := True\<rparr> else s1)"

definition wb_ctrl_write ::
  "'d dut \<Rightarrow> u32 \<Rightarrow> u32 \<Rightarrow> ('d, 'z) wbflash_tb_scheme \<Rightarrow>
     (error + ('d, 'z) wbflash_tb_scheme) option" where
  "wb_ctrl_write dut a v s =
     (case write_request dut True a v s of
        Inl e \<Rightarrow> Some (Inl e)
      | Inr (errcount, s5) \<Rightarrow> tick_assert_drain dut (write_release errcount s5))"

text \<open>\<open>wb_write\<close> ends with \<open>assert(!o_wb_stall)\<close> after the drain.\<close>

definition wb_write ::
  "'d dut \<Rightarrow> u32 \<Rightarrow> u32 \<Rightarrow> ('d, 'z) wbflash_tb_scheme \<Rightarrow>
     (error + ('d, 'z) wbflash_tb_scheme) option" where
  "wb_write dut a v s =
     (case write_request dut False a v s of
        Inl e \<Rightarrow> Some (Inl e)
      | Inr (errcount, s5) \<Rightarrow>
          (case tick_assert_drain dut (write_release errcount s5) of
             None \<Rightarrow> None
           | Some (Inl e) \<Rightarrow> Some (Inl e)
           | Some (Inr s') \<Rightarrow>
               if o_wb_stall s' then Some (Inl AssertionFailed) else Some (Inr s')))"

subsection \<open>The burst read \<open>wb_read(a, len, buf, inc)\<close>\<close>

text \<open>
  \<open>buf\<close> is the caller's array, a list of the length the caller allocated;
  \<open>buf[rdidx++] = o_wb_data\<close> stores in place. \<open>THISBOMBCOUNT = BOMBCOUNT * len\<close> is
  computed in \<open>int\<close>: the model agrees with the code for \<open>len < 2^20\<close>, where the
  product does not overflow.
\<close>

definition store_word :: "u32 list \<Rightarrow> nat \<Rightarrow> u32 \<Rightarrow> error + (nat \<times> u32 list)" where
  "store_word buf rdidx v =
     (if rdidx < length buf then Inr (rdidx + 1, buf[rdidx := v]) else Inl BufferOverrun)"

text \<open>
  The request loop:
  \<^verbatim>\<open>do { s = (o_wb_stall==0)?0:1; tick(); i_wb_addr += inc&(s^1); cnt += (s^1);
       if (o_wb_ack) buf[rdidx++] = o_wb_data;
  } while ((cnt < len) && (errcount++ < THISBOMBCOUNT));\<close>
\<close>

function burst_read_request ::
  "'d dut \<Rightarrow> int \<Rightarrow> int \<Rightarrow> int \<Rightarrow> nat \<Rightarrow> int \<Rightarrow> u32 list \<Rightarrow>
     ('d, 'z) wbflash_tb_scheme \<Rightarrow>
     error + (nat \<times> int \<times> u32 list \<times> ('d, 'z) wbflash_tb_scheme)" where
  "burst_read_request dut len inc cnt rdidx errcount buf s =
     (let st = (if o_wb_stall s then 1 else 0 :: int)
      in case tick dut s of
           Inl e \<Rightarrow> Inl e
         | Inr s1 \<Rightarrow>
             (let s2 = s1\<lparr>i_wb_addr := i_wb_addr s1 + word_of_int (inc AND (st XOR 1))\<rparr>;
                  cnt' = cnt + (st XOR 1)
              in case (if o_wb_ack s2 then store_word buf rdidx (o_wb_data s2)
                       else Inr (rdidx, buf)) of
                   Inl e \<Rightarrow> Inl e
                 | Inr (rdidx', buf') \<Rightarrow>
                     if cnt' < len
                     then (if errcount < BOMBCOUNT * len
                           then burst_read_request dut len inc cnt' rdidx' (errcount + 1)
                                  buf' s2
                           else Inr (rdidx', errcount + 1, buf', s2))
                     else Inr (rdidx', errcount, buf', s2)))"
  by pat_completeness auto
termination
  by (relation "measure (\<lambda>(dut, len, inc, cnt, rdidx, errcount, buf, s).
                   nat (BOMBCOUNT * len - errcount))") auto

text \<open>
  The collecting loop:
  \<^verbatim>\<open>while ((rdidx < len) && (errcount++ < THISBOMBCOUNT)) {
       tick(); if (o_wb_ack) buf[rdidx++] = o_wb_data; }\<close>
\<close>

function burst_read_collect ::
  "'d dut \<Rightarrow> int \<Rightarrow> nat \<Rightarrow> int \<Rightarrow> u32 list \<Rightarrow> ('d, 'z) wbflash_tb_scheme \<Rightarrow>
     error + (nat \<times> int \<times> u32 list \<times> ('d, 'z) wbflash_tb_scheme)" where
  "burst_read_collect dut len rdidx errcount buf s =
     (if int rdidx < len
      then (if errcount < BOMBCOUNT * len
            then (case tick dut s of
                    Inl e \<Rightarrow> Inl e
                  | Inr s1 \<Rightarrow>
                      (case (if o_wb_ack s1 then store_word buf rdidx (o_wb_data s1)
                             else Inr (rdidx, buf)) of
                         Inl e \<Rightarrow> Inl e
                       | Inr (rdidx', buf') \<Rightarrow>
                           burst_read_collect dut len rdidx' (errcount + 1) buf' s1))
            else Inr (rdidx, errcount + 1, buf, s))
      else Inr (rdidx, errcount, buf, s))"
  by pat_completeness auto
termination
  by (relation "measure (\<lambda>(dut, len, rdidx, errcount, buf, s).
                   nat (BOMBCOUNT * len - errcount))") auto

definition burst_read_release ::
  "int \<Rightarrow> int \<Rightarrow> ('d, 'z) wbflash_tb_scheme \<Rightarrow> ('d, 'z) wbflash_tb_scheme" where
  "burst_read_release len errcount s =
     (let s1 = s\<lparr>i_wb_cyc := False, m_ack_expected := False\<rparr>
      in if errcount \<ge> BOMBCOUNT * len then s1\<lparr>m_bomb := True\<rparr>
         else if \<not> o_wb_ack s1 then s1\<lparr>m_bomb := True\<rparr>
         else s1)"

text \<open>The transfer proper, from the pins being set to the bus being released; it
  returns \<open>rdidx\<close> and \<open>errcount\<close> with the buffer and the object.\<close>

definition burst_read_transfer ::
  "'d dut \<Rightarrow> u32 \<Rightarrow> int \<Rightarrow> u32 list \<Rightarrow> int \<Rightarrow> ('d, 'z) wbflash_tb_scheme \<Rightarrow>
     error + (nat \<times> int \<times> u32 list \<times> ('d, 'z) wbflash_tb_scheme)" where
  "burst_read_transfer dut a len buf inc s =
     (let s3 = s\<lparr>i_wb_cyc := True, i_wb_data_stb := True, i_wb_ctrl_stb := False,
                 i_wb_we := False, i_wb_addr := drop_bit 2 a\<rparr>
      in case burst_read_request dut len inc 0 0 0 buf s3 of
           Inl e \<Rightarrow> Inl e
         | Inr (rdidx, errcount, buf1, s4) \<Rightarrow>
             burst_read_collect dut len rdidx errcount buf1
               (s4\<lparr>i_wb_data_stb := False, i_wb_ctrl_stb := False\<rparr>))"

definition wb_read_burst ::
  "'d dut \<Rightarrow> u32 \<Rightarrow> int \<Rightarrow> u32 list \<Rightarrow> int \<Rightarrow> ('d, 'z) wbflash_tb_scheme \<Rightarrow>
     error + (u32 list \<times> ('d, 'z) wbflash_tb_scheme)" where
  "wb_read_burst dut a len buf inc s =
     (let s1 = s\<lparr>i_wb_cyc := False, i_wb_data_stb := True, i_wb_ctrl_stb := False\<rparr>
      in case wait_while_stalled dut 0 s1 of
           Inl e \<Rightarrow> Inl e
         | Inr (errcount0, s2) \<Rightarrow>
             if errcount0 \<ge> BOMBCOUNT then Inr (buf, s2\<lparr>m_bomb := True\<rparr>)
             else (case burst_read_transfer dut a len buf inc s2 of
                     Inl e \<Rightarrow> Inl e
                   | Inr (rdidx, errcount, buf2, s5) \<Rightarrow>
                       (case tick dut (burst_read_release len errcount s5) of
                          Inl e \<Rightarrow> Inl e
                        | Inr s7 \<Rightarrow>
                            if o_wb_ack s7 then Inl AssertionFailed
                            else Inr (buf2, s7))))"

subsection \<open>The burst write \<open>wb_write(a, ln, buf, inc)\<close>\<close>

text \<open>
  The wait inside the posting loop counts the acknowledges that arrive meanwhile:
  \<^verbatim>\<open>while ((errcount++ < BOMBCOUNT) && (o_wb_stall)) { tick(); if (o_wb_ack) nacks++; }\<close>
  Its \<open>errcount\<close> is reset by the next iteration and by the code after the loop, so it is
  not returned.
\<close>

function post_wait_stalled ::
  "'d dut \<Rightarrow> int \<Rightarrow> nat \<Rightarrow> ('d, 'z) wbflash_tb_scheme \<Rightarrow>
     error + (nat \<times> ('d, 'z) wbflash_tb_scheme)" where
  "post_wait_stalled dut errcount nacks s =
     (if errcount < BOMBCOUNT \<and> o_wb_stall s
      then (case tick dut s of
              Inl e \<Rightarrow> Inl e
            | Inr s' \<Rightarrow>
                post_wait_stalled dut (errcount + 1)
                  (if o_wb_ack s' then nacks + 1 else nacks) s')
      else Inr (nacks, s))"
  by pat_completeness auto
termination
  by (relation "measure (\<lambda>(dut, errcount, nacks, s). nat (BOMBCOUNT - errcount))") auto

text \<open>
  The posting loop \<open>for (stbcnt = 0; stbcnt < ln; stbcnt++)\<close>: the word is put on the
  data pins, the stall is waited out, one tick posts the word, the address advances by
  \<open>inc\<close>. Reading \<open>buf[stbcnt]\<close> beyond the caller's array is the error
  \<open>BufferOverrun\<close>.
\<close>

function burst_write_post ::
  "'d dut \<Rightarrow> nat \<Rightarrow> int \<Rightarrow> u32 list \<Rightarrow> nat \<Rightarrow> nat \<Rightarrow> ('d, 'z) wbflash_tb_scheme \<Rightarrow>
     error + (nat \<times> ('d, 'z) wbflash_tb_scheme)" where
  "burst_write_post dut ln inc buf stbcnt nacks s =
     (if stbcnt < ln
      then (if stbcnt < length buf
            then (case post_wait_stalled dut 0 nacks (s\<lparr>i_wb_data := buf ! stbcnt\<rparr>) of
                    Inl e \<Rightarrow> Inl e
                  | Inr (nacks1, s2) \<Rightarrow>
                      (case tick dut s2 of
                         Inl e \<Rightarrow> Inl e
                       | Inr s3 \<Rightarrow>
                           burst_write_post dut ln inc buf (stbcnt + 1)
                             (if o_wb_ack s3 then nacks1 + 1 else nacks1)
                             (s3\<lparr>i_wb_addr := i_wb_addr s3 + word_of_int inc\<rparr>)))
            else Inl BufferOverrun)
      else Inr (nacks, s))"
  by pat_completeness auto
termination
  by (relation "measure (\<lambda>(dut, ln, inc, buf, stbcnt, nacks, s). ln - stbcnt)") auto

text \<open>
  The wait for the outstanding acknowledges:
  \<^verbatim>\<open>while ((nacks < ln) && (errcount++ < BOMBCOUNT)) {
       tick(); if (o_wb_ack) { nacks++; errcount = 0; } }\<close>
\<close>

function burst_write_acks ::
  "'d dut \<Rightarrow> nat \<Rightarrow> nat \<Rightarrow> int \<Rightarrow> ('d, 'z) wbflash_tb_scheme \<Rightarrow>
     error + (nat \<times> int \<times> ('d, 'z) wbflash_tb_scheme)" where
  "burst_write_acks dut ln nacks errcount s =
     (if nacks < ln
      then (if errcount < BOMBCOUNT
            then (case tick dut s of
                    Inl e \<Rightarrow> Inl e
                  | Inr s' \<Rightarrow>
                      if o_wb_ack s' then burst_write_acks dut ln (nacks + 1) 0 s'
                      else burst_write_acks dut ln nacks (errcount + 1) s')
            else Inr (nacks, errcount + 1, s))
      else Inr (nacks, errcount, s))"
  by pat_completeness auto
termination
  by (relation "measures [\<lambda>(dut, ln, nacks, errcount, s). ln - nacks,
                          \<lambda>(dut, ln, nacks, errcount, s). nat (BOMBCOUNT - errcount)]")
     auto

definition wb_write_burst ::
  "'d dut \<Rightarrow> u32 \<Rightarrow> nat \<Rightarrow> u32 list \<Rightarrow> int \<Rightarrow> ('d, 'z) wbflash_tb_scheme \<Rightarrow>
     (error + ('d, 'z) wbflash_tb_scheme) option" where
  "wb_write_burst dut a ln buf inc s =
     (let s1 = s\<lparr>i_wb_cyc := True, i_wb_data_stb := True, i_wb_ctrl_stb := False,
                 i_wb_we := True, i_wb_addr := drop_bit 2 a\<rparr>
      in case burst_write_post dut ln inc buf 0 0 s1 of
           Inl e \<Rightarrow> Some (Inl e)
         | Inr (nacks, s2) \<Rightarrow>
             (case burst_write_acks dut ln nacks 0
                     (s2\<lparr>i_wb_data_stb := True, i_wb_ctrl_stb := False\<rparr>) of
                Inl e \<Rightarrow> Some (Inl e)
              | Inr (nacks', errcount, s3) \<Rightarrow>
                  tick_assert_drain dut (write_release errcount s3)))"

declare burst_read_request.simps [simp del]
declare burst_read_collect.simps [simp del]
declare post_wait_stalled.simps [simp del]
declare burst_write_post.simps [simp del]
declare burst_write_acks.simps [simp del]

subsection \<open>A core to run the transactor on\<close>

text \<open>
  \<open>new_tb core\<close> is a freshly constructed test bench around a core in the state
  \<open>core\<close>, all pins low. A small core for concrete runs: it never stalls, and it acknowledges, one clock later,
  every strobe presented with the cycle line, returning the address as the data. Its
  internal state is the number of strobes it has accepted.
\<close>

definition echo_core :: "nat dut" where
  "echo_core n p =
     (if p_cyc p \<and> (p_data_stb p \<or> p_ctrl_stb p)
      then (n + 1, False, True, p_addr p)
      else (n, False, False, 0))"

definition new_tb :: "'d \<Rightarrow> 'd wbflash_tb" where
  "new_tb core =
     WBFLASH_TB
       \<lparr>m_core = core, i_wb_cyc = False, i_wb_data_stb = False, i_wb_ctrl_stb = False,
        i_wb_we = False, i_wb_addr = 0, i_wb_data = 0, o_wb_stall = False,
        o_wb_ack = False, o_wb_data = 0, m_tickcount = 0, m_trace = [],
        m_ack_expected = False, m_bomb = False\<rparr>"

text \<open>
  A core with a latency: it accepts a strobe when it is idle, stalls while it works on
  it and acknowledges on the next clock. Its internal state says whether it is busy.
\<close>

definition slow_core :: "bool dut" where
  "slow_core busy p =
     (if busy then (False, False, True, 0)
      else if p_cyc p \<and> (p_data_stb p \<or> p_ctrl_stb p) then (True, True, False, 0)
      else (False, False, False, 0))"

text \<open>A core that breaks the protocol: it acknowledges on every clock, strobed or
  not.\<close>

definition babbling_core :: "unit dut" where
  "babbling_core u p = (u, False, True, 0)"

text \<open>A core that stalls after the transfer: it acknowledges a strobe like the echo core
  and then holds the stall line high for two more clocks. Its internal state is the number
  of clocks it will still stall.\<close>

definition lingering_core :: "nat dut" where
  "lingering_core n p =
     (if p_cyc p \<and> (p_data_stb p \<or> p_ctrl_stb p) then (2, False, True, p_addr p)
      else if 0 < n then (n - 1, True, False, 0)
      else (0, False, False, 0))"

text \<open>What no wait and no tick changes: the control pins, the fault flag, and
  whatever members a derived class adds to the object.\<close>

definition ctl_frame :: "('d, 'z) wbflash_tb_scheme \<Rightarrow> ('d, 'z) wbflash_tb_scheme \<Rightarrow> bool" where
  "ctl_frame s s' \<longleftrightarrow>
     i_wb_cyc s' = i_wb_cyc s \<and> i_wb_data_stb s' = i_wb_data_stb s
     \<and> i_wb_ctrl_stb s' = i_wb_ctrl_stb s \<and> i_wb_we s' = i_wb_we s
     \<and> m_bomb s' = m_bomb s \<and> wbflash_tb.more s' = wbflash_tb.more s"

subsection \<open>When the fault flag is set\<close>

text \<open>
  The conditions under which the release code of each operation executes
  \<open>m_bomb = true\<close>, read off the operation's own counters. A single-word operation
  has timed out when the \<open>errcount\<close> it holds at release has reached
  \<open>BOMBCOUNT\<close>; the burst write when the \<open>errcount\<close> of its wait for the
  acknowledges has; the burst read when the \<open>errcount\<close> of its first wait has reached
  \<open>BOMBCOUNT\<close> (the early return) or the \<open>errcount\<close> of the transfer has reached
  \<open>BOMBCOUNT * len\<close>. \<open>burst_read_no_ack\<close> is the branch the code reports as
  "NO ACK, NO TIMEOUT": neither counter has reached its budget and the acknowledge is
  low when the bus is released.
\<close>

definition read_timed_out ::
  "'d dut \<Rightarrow> bool \<Rightarrow> u32 \<Rightarrow> ('d, 'z) wbflash_tb_scheme \<Rightarrow> bool" where
  "read_timed_out dut ctrl a s =
     (case read_request dut ctrl a s of
        Inl e \<Rightarrow> False
      | Inr (errcount, s4) \<Rightarrow> BOMBCOUNT \<le> errcount)"

definition write_timed_out ::
  "'d dut \<Rightarrow> bool \<Rightarrow> u32 \<Rightarrow> u32 \<Rightarrow> ('d, 'z) wbflash_tb_scheme \<Rightarrow> bool" where
  "write_timed_out dut ctrl a v s =
     (case write_request dut ctrl a v s of
        Inl e \<Rightarrow> False
      | Inr (errcount, s5) \<Rightarrow> BOMBCOUNT \<le> errcount)"

definition burst_write_timed_out ::
  "'d dut \<Rightarrow> u32 \<Rightarrow> nat \<Rightarrow> u32 list \<Rightarrow> int \<Rightarrow> ('d, 'z) wbflash_tb_scheme \<Rightarrow> bool" where
  "burst_write_timed_out dut a ln buf inc s =
     (case burst_write_post dut ln inc buf 0 0
             (s\<lparr>i_wb_cyc := True, i_wb_data_stb := True, i_wb_ctrl_stb := False,
                i_wb_we := True, i_wb_addr := drop_bit 2 a\<rparr>) of
        Inl e \<Rightarrow> False
      | Inr (nacks, s2) \<Rightarrow>
          (case burst_write_acks dut ln nacks 0
                  (s2\<lparr>i_wb_data_stb := True, i_wb_ctrl_stb := False\<rparr>) of
             Inl e \<Rightarrow> False
           | Inr (nacks', errcount, s3) \<Rightarrow> BOMBCOUNT \<le> errcount))"

definition burst_read_timed_out ::
  "'d dut \<Rightarrow> u32 \<Rightarrow> int \<Rightarrow> u32 list \<Rightarrow> int \<Rightarrow> ('d, 'z) wbflash_tb_scheme \<Rightarrow> bool" where
  "burst_read_timed_out dut a len buf inc s =
     (case wait_while_stalled dut 0
             (s\<lparr>i_wb_cyc := False, i_wb_data_stb := True, i_wb_ctrl_stb := False\<rparr>) of
        Inl e \<Rightarrow> False
      | Inr (errcount0, s2) \<Rightarrow>
          BOMBCOUNT \<le> errcount0
          \<or> (case burst_read_transfer dut a len buf inc s2 of
                Inl e \<Rightarrow> False
              | Inr (rdidx, errcount, buf2, s5) \<Rightarrow> BOMBCOUNT * len \<le> errcount))"

definition burst_read_no_ack ::
  "'d dut \<Rightarrow> u32 \<Rightarrow> int \<Rightarrow> u32 list \<Rightarrow> int \<Rightarrow> ('d, 'z) wbflash_tb_scheme \<Rightarrow> bool" where
  "burst_read_no_ack dut a len buf inc s =
     (case wait_while_stalled dut 0
             (s\<lparr>i_wb_cyc := False, i_wb_data_stb := True, i_wb_ctrl_stb := False\<rparr>) of
        Inl e \<Rightarrow> False
      | Inr (errcount0, s2) \<Rightarrow>
          errcount0 < BOMBCOUNT
          \<and> (case burst_read_transfer dut a len buf inc s2 of
                Inl e \<Rightarrow> False
              | Inr (rdidx, errcount, buf2, s5) \<Rightarrow>
                  errcount < BOMBCOUNT * len \<and> \<not> o_wb_ack s5))"

subsection \<open>A run of the test bench\<close>

text \<open>
  What a scenario driver does with the object between two looks at the fault flag: a
  sequence of calls of the public operations. \<open>SetFlash\<close> stands for the calls that
  only touch the flash model (\<open>load\<close>, \<open>setflash\<close>, \<open>set\<close>). The run stops at the
  first operation that aborts or does not return.
\<close>

datatype 'd tb_op =
    Tick
  | SetFlash "'d \<Rightarrow> 'd"
  | WbRead u32
  | WbCtrlRead u32
  | WbWrite u32 u32
  | WbCtrlWrite u32 u32
  | WbReadBurst u32 int "u32 list" int
  | WbWriteBurst u32 nat "u32 list" int

fun run_op ::
  "'d dut \<Rightarrow> 'd tb_op \<Rightarrow> ('d, 'z) wbflash_tb_scheme \<Rightarrow>
     (error + ('d, 'z) wbflash_tb_scheme) option" where
  "run_op dut Tick s = Some (tick dut s)"
| "run_op dut (SetFlash f) s = Some (Inr (s\<lparr>m_core := f (m_core s)\<rparr>))"
| "run_op dut (WbRead a) s = map_option (map_sum id snd) (wb_read dut a s)"
| "run_op dut (WbCtrlRead a) s = map_option (map_sum id snd) (wb_ctrl_read dut a s)"
| "run_op dut (WbWrite a v) s = wb_write dut a v s"
| "run_op dut (WbCtrlWrite a v) s = wb_ctrl_write dut a v s"
| "run_op dut (WbReadBurst a len buf inc) s =
     Some (map_sum id snd (wb_read_burst dut a len buf inc s))"
| "run_op dut (WbWriteBurst a ln buf inc) s = wb_write_burst dut a ln buf inc s"

fun run_ops ::
  "'d dut \<Rightarrow> 'd tb_op list \<Rightarrow> ('d, 'z) wbflash_tb_scheme \<Rightarrow>
     (error + ('d, 'z) wbflash_tb_scheme) option" where
  "run_ops dut [] s = Some (Inr s)"
| "run_ops dut (op # ops) s =
     (case run_op dut op s of
        None \<Rightarrow> None
      | Some (Inl e) \<Rightarrow> Some (Inl e)
      | Some (Inr s') \<Rightarrow> run_ops dut ops s')"

text \<open>The accessor \<open>WBFLASH_TB::bombed\<close>.\<close>

definition bombed :: "('d, 'z) wbflash_tb_scheme \<Rightarrow> bool" where
  "bombed s = m_bomb s"


definition dead_core :: "unit dut" where
  "dead_core u p = (u, False, False, 0)"

section \<open>The flash test benches (qspiflash\_tb.cpp, spixpress\_tb.cpp, dualflexpress\_tb.cpp)\<close>

text \<open>
  Each of the three files derives a class from \<open>WBFLASH_TB\<close> (the class of
  dualflexpress\_tb.cpp is also called \<open>SPIXPRESS_TB\<close>; it is \<open>DUALFLEXPRESS_TB\<close>
  here). Each declares a private member \<open>bool m_bomb\<close> of its own and an accessor
  \<open>bombed()\<close> that returns it; in the record the member has the name of its class in
  front. The flash model \<open>m_flash\<close> and \<open>m_flash_last_sck\<close> are part of the core
  state \<open>m_core\<close>, see above. A constructor is applied to the storage of the new
  object, \<open>obj\<close>, whose members hold indeterminate values: the base class constructor
  runs, then \<open>m_core = new ...\<close>; nothing else is assigned.
\<close>

record 'd qspiflash_tb = "'d wbflash_tb" +
  qspi_m_bomb :: bool

record 'd spixpress_tb = "'d wbflash_tb" +
  spix_m_bomb :: bool

record 'd dualflexpress_tb = "'d wbflash_tb" +
  dual_m_bomb :: bool

definition QSPIFLASH_TB :: "'d qspiflash_tb \<Rightarrow> 'd \<Rightarrow> 'd qspiflash_tb" where
  "QSPIFLASH_TB obj core = (WBFLASH_TB obj)\<lparr>m_core := core\<rparr>"

definition SPIXPRESS_TB :: "'d spixpress_tb \<Rightarrow> 'd \<Rightarrow> 'd spixpress_tb" where
  "SPIXPRESS_TB obj core = (WBFLASH_TB obj)\<lparr>m_core := core\<rparr>"

definition DUALFLEXPRESS_TB :: "'d dualflexpress_tb \<Rightarrow> 'd \<Rightarrow> 'd dualflexpress_tb" where
  "DUALFLEXPRESS_TB obj core = (WBFLASH_TB obj)\<lparr>m_core := core\<rparr>"

definition qspiflash_bombed :: "'d qspiflash_tb \<Rightarrow> bool" where
  "qspiflash_bombed s = qspi_m_bomb s"

definition spixpress_bombed :: "'d spixpress_tb \<Rightarrow> bool" where
  "spixpress_bombed s = spix_m_bomb s"

definition dualflexpress_bombed :: "'d dualflexpress_tb \<Rightarrow> bool" where
  "dualflexpress_bombed s = dual_m_bomb s"

text \<open>Storage for a new object that holds stale values: every pin low, the counters
  zero, but both flags of the base class set; \<open>b\<close> is what the derived class's
  \<open>m_bomb\<close> happens to hold.\<close>

definition stale_qspiflash :: "'d \<Rightarrow> bool \<Rightarrow> 'd qspiflash_tb" where
  "stale_qspiflash core b =
     \<lparr>m_core = core, i_wb_cyc = False, i_wb_data_stb = False, i_wb_ctrl_stb = False,
      i_wb_we = False, i_wb_addr = 0, i_wb_data = 0, o_wb_stall = False,
      o_wb_ack = False, o_wb_data = 0, m_tickcount = 0, m_trace = [],
      m_ack_expected = True, m_bomb = True, qspi_m_bomb = b\<rparr>"

definition stale_spixpress :: "'d \<Rightarrow> bool \<Rightarrow> 'd spixpress_tb" where
  "stale_spixpress core b =
     \<lparr>m_core = core, i_wb_cyc = False, i_wb_data_stb = False, i_wb_ctrl_stb = False,
      i_wb_we = False, i_wb_addr = 0, i_wb_data = 0, o_wb_stall = False,
      o_wb_ack = False, o_wb_data = 0, m_tickcount = 0, m_trace = [],
      m_ack_expected = True, m_bomb = True, spix_m_bomb = b\<rparr>"

definition stale_dualflexpress :: "'d \<Rightarrow> bool \<Rightarrow> 'd dualflexpress_tb" where
  "stale_dualflexpress core b =
     \<lparr>m_core = core, i_wb_cyc = False, i_wb_data_stb = False, i_wb_ctrl_stb = False,
      i_wb_we = False, i_wb_addr = 0, i_wb_data = 0, o_wb_stall = False,
      o_wb_ack = False, o_wb_data = 0, m_tickcount = 0, m_trace = [],
      m_ack_expected = True, m_bomb = True, dual_m_bomb = b\<rparr>"

section \<open>The flash command sequencer (spixpress\_tb.cpp, dualflexpress\_tb.cpp)\<close>

text \<open>
  The sequencer talks to the flash through the configuration port, one word per call of
  \<open>cfg_write\<close>, one word back per call of \<open>cfg_read\<close>. What it does is the sequence
  of these calls. The model keeps that sequence: \<open>events\<close> lists, in order, every
  word written, every word read, every \<open>tick()\<close> the sequencer makes itself, and every
  entry into \<open>flpage_program\<close> with its arguments. The device is the function
  \<open>port\<close>: the word the k-th \<open>cfg_read\<close> of the run returns; \<open>nreads\<close> counts the
  reads made so far. A run in which a configuration-port operation aborts is cut at that
  point and is not described further. \<open>flwait\<close> polls without a bound: it returns an
  \<open>option\<close>, \<open>None\<close> when the device never reports ready.
\<close>

type_synonym u8 = "8 word"

datatype cfg_event = CfgWrite u32 | CfgRead u32 | ClockTick | PageProgram int int

record seq_state =
  nreads :: nat
  events :: "cfg_event list"

type_synonym port = "nat \<Rightarrow> u32"

text \<open>
  Modelled from the spec: \<open>cfg_write\<close> and \<open>cfg_read\<close>, which the flash test benches
  call but wbflash\_tb.h under src does not define (it has \<open>wb_ctrl_write(a, v)\<close> and
  \<open>wb_ctrl_read(a)\<close>). The spec: a command frame is an ordered sequence of
  configuration-port word writes, consumed one word per call into the bus transactor;
  a control-port read returns one word.
\<close>

definition cfg_write :: "u32 \<Rightarrow> seq_state \<Rightarrow> seq_state" where
  "cfg_write v st = st\<lparr>events := events st @ [CfgWrite v]\<rparr>"

definition cfg_read :: "port \<Rightarrow> seq_state \<Rightarrow> u32 \<times> seq_state" where
  "cfg_read port st =
     (port (nreads st),
      st\<lparr>nreads := nreads st + 1, events := events st @ [CfgRead (port (nreads st))]\<rparr>)"

text \<open>
  The sequencer's own \<open>tick()\<close> is \<open>WBFLASH_TB::tick\<close>: the clock, then
  \<open>assert(i_wb_cyc || !o_wb_ack)\<close>. The sequencer ticks between two operations of the
  transactor, each of which leaves the cycle line low, so the assertion fails when the
  core raises the acknowledge on that clock. Whether it does is up to the core, as the
  words read are: \<open>acks k\<close> says whether the core acknowledges on the k-th tick the
  sequencer makes itself, and \<open>nticks\<close> counts the ticks made so far.
\<close>

type_synonym acks = "nat \<Rightarrow> bool"

definition nticks :: "seq_state \<Rightarrow> nat" where
  "nticks st = length (filter (\<lambda>e. e = ClockTick) (events st))"

definition fl_tick :: "acks \<Rightarrow> seq_state \<Rightarrow> error + seq_state" where
  "fl_tick acks st =
     (if acks (nticks st) then Inl AssertionFailed
      else Inr (st\<lparr>events := events st @ [ClockTick]\<rparr>))"

text \<open>
  The two files define the same functions with small differences: \<open>Single\<close> is
  spixpress\_tb.cpp, \<open>Dual\<close> is dualflexpress\_tb.cpp. The dummy word written before a
  read is \<open>0\<close> in the first and \<open>CFG_USERMODE\<close> in the second (\<open>dummy\<close>); address
  and data bytes are written as they are in the first and with \<open>CFG_USERMODE\<close> set in
  the second (\<open>user_byte\<close>).
\<close>

datatype variant = Single | Dual

definition CFG_USERMODE :: u32 where "CFG_USERMODE = 0x1000"
definition CFG_DSPEED :: u32 where "CFG_DSPEED = 0x0400"
definition CFG_WEDIR :: u32 where "CFG_WEDIR = 0x0200"
definition CFG_USER_CS_n :: u32 where "CFG_USER_CS_n = 0x0100"

definition F_RESET :: u32 where "F_RESET = CFG_USERMODE OR 0x0ff"
definition F_PP :: u32 where "F_PP = CFG_USERMODE OR 0x002"
definition F_RDSR :: u32 where "F_RDSR = CFG_USERMODE OR 0x005"
definition F_WREN :: u32 where "F_WREN = CFG_USERMODE OR 0x006"
definition F_READID :: u32 where "F_READID = CFG_USERMODE OR 0x09f"
definition F_SE :: u32 where "F_SE = CFG_USERMODE OR 0x0d8"
definition F_END :: u32 where "F_END = CFG_USERMODE OR CFG_USER_CS_n"

text \<open>\<open>#define PAGEOF(A) ((A)&(-1<<8))\<close> on \<open>int\<close>. The C \<open>int\<close>s of
  \<open>flprogram\<close> are 32 bits wide: \<open>int32\<close> takes the result of a sum or a difference
  into the range from \<open>-2^31\<close> to \<open>2^31 - 1\<close>, modulo \<open>2^32\<close>, which is what the
  compiled code computes when the operation overflows.\<close>

definition int32 :: "int \<Rightarrow> int" where
  "int32 x = signed_take_bit 31 x"

definition PGLENB :: int where "PGLENB = 256"

definition PAGEOF :: "int \<Rightarrow> int" where
  "PAGEOF a = a AND push_bit 8 (- 1)"

fun dummy :: "variant \<Rightarrow> u32" where
  "dummy Single = 0"
| "dummy Dual = CFG_USERMODE"

fun user_byte :: "variant \<Rightarrow> u32 \<Rightarrow> u32" where
  "user_byte Single b = b"
| "user_byte Dual b = CFG_USERMODE OR b"

text \<open>\<open>take_offline\<close> and \<open>place_online\<close> exist in dualflexpress\_tb.cpp only.\<close>

definition take_offline :: "seq_state \<Rightarrow> seq_state" where
  "take_offline st =
     cfg_write F_END (cfg_write F_RESET (cfg_write F_RESET (cfg_write F_END st)))"

definition place_online :: "seq_state \<Rightarrow> seq_state" where
  "place_online st =
     (let st1 = cfg_write (CFG_USERMODE OR 0xbb) st;
          st2 = cfg_write (CFG_USERMODE OR CFG_DSPEED OR CFG_WEDIR) st1;
          st3 = cfg_write (CFG_USERMODE OR CFG_DSPEED OR CFG_WEDIR) st2;
          st4 = cfg_write (CFG_USERMODE OR CFG_DSPEED OR CFG_WEDIR) st3;
          st5 = cfg_write (CFG_USERMODE OR CFG_DSPEED OR CFG_WEDIR OR 0xa0) st4;
          st6 = cfg_write (CFG_USERMODE OR CFG_DSPEED) st5
      in cfg_write 0 st6)"

definition flreadid :: "variant \<Rightarrow> port \<Rightarrow> seq_state \<Rightarrow> u32 \<times> seq_state" where
  "flreadid v port st =
     (let st0 = cfg_write F_READID st;
          (v1, st1) = cfg_read port (cfg_write (dummy v) st0);
          r1 = v1 AND 0x0ff;
          (v2, st2) = cfg_read port (cfg_write (dummy v) st1);
          r2 = push_bit 8 r1 OR (v2 AND 0x0ff);
          (v3, st3) = cfg_read port (cfg_write (dummy v) st2);
          r3 = push_bit 8 r2 OR (v3 AND 0x0ff);
          (v4, st4) = cfg_read port (cfg_write (dummy v) st3);
          r4 = push_bit 8 r3 OR (v4 AND 0x0ff)
      in (r4, cfg_write F_END st4))"

fun flstatus :: "variant \<Rightarrow> port \<Rightarrow> seq_state \<Rightarrow> u32 \<times> seq_state" where
  "flstatus Single port st =
     (let st1 = cfg_write F_END (cfg_write 0 (cfg_write F_RDSR st));
          (v, st2) = cfg_read port st1
      in (v AND 0x0ff, st2))"
| "flstatus Dual port st =
     (let (v, st1) = cfg_read port (cfg_write CFG_USERMODE (cfg_write F_RDSR st))
      in (v AND 0x0ff, cfg_write F_END st1))"

text \<open>\<open>flwait\<close>: \<open>cfg_write(F_RDSR); do { cfg_write(dummy); r = cfg_read(); }
  while (r & 1); cfg_write(F_END);\<close>\<close>

partial_function (option) flwait_poll :: "port \<Rightarrow> u32 \<Rightarrow> seq_state \<Rightarrow> seq_state option" where
  "flwait_poll port d st =
     (case cfg_read port (cfg_write d st) of
        (r, st') \<Rightarrow> if r AND 1 \<noteq> 0 then flwait_poll port d st' else Some st')"

declare flwait_poll.simps [code]

definition flwait :: "variant \<Rightarrow> port \<Rightarrow> seq_state \<Rightarrow> seq_state option" where
  "flwait v port st =
     map_option (cfg_write F_END) (flwait_poll port (dummy v) (cfg_write F_RDSR st))"

text \<open>\<open>flerase\<close>. The eight writes between \<open>take_offline\<close> and \<open>flwait\<close> are the
  same in both files but for \<open>user_byte\<close>.\<close>

definition erase_frame :: "variant \<Rightarrow> u32 \<Rightarrow> seq_state \<Rightarrow> seq_state" where
  "erase_frame v sectoraddr st =
     (let st1 = cfg_write F_END (cfg_write F_WREN (cfg_write F_END st));
          st2 = cfg_write F_SE st1;
          st3 = cfg_write (user_byte v (drop_bit 16 sectoraddr AND 0x0ff)) st2;
          st4 = cfg_write (user_byte v (drop_bit 8 sectoraddr AND 0x0ff)) st3;
          st5 = cfg_write (user_byte v (sectoraddr AND 0x0ff)) st4
      in cfg_write F_END st5)"

fun flerase :: "variant \<Rightarrow> port \<Rightarrow> u32 \<Rightarrow> seq_state \<Rightarrow> seq_state option" where
  "flerase Single port sectoraddr st = flwait Single port (erase_frame Single sectoraddr st)"
| "flerase Dual port sectoraddr st =
     map_option place_online
       (flwait Dual port (erase_frame Dual sectoraddr (take_offline st)))"

text \<open>\<open>flpage_program(addr, ln, buf)\<close>. \<open>buf\<close> is the array the pointer points
  into, from the pointer on; reading \<open>ln\<close> bytes from a shorter array is the error
  \<open>BufferOverrun\<close>. The first event is the entry into the function. Each of the four
  ticks can fail its assertion.\<close>

fun write_payload :: "variant \<Rightarrow> u8 list \<Rightarrow> seq_state \<Rightarrow> seq_state" where
  "write_payload v [] st = st"
| "write_payload v (b # bs) st = write_payload v bs (cfg_write (user_byte v (ucast b AND 0x0ff)) st)"

definition addr_byte :: "int \<Rightarrow> nat \<Rightarrow> u32" where
  "addr_byte addr sh = word_of_int (drop_bit sh addr AND 0x0ff)"

definition flpage_program ::
  "variant \<Rightarrow> port \<Rightarrow> acks \<Rightarrow> int \<Rightarrow> int \<Rightarrow> u8 list \<Rightarrow> seq_state \<Rightarrow>
     (error + seq_state) option" where
  "flpage_program v port acks addr ln buf st =
     (case flwait v port (st\<lparr>events := events st @ [PageProgram addr ln]\<rparr>) of
        None \<Rightarrow> None
      | Some st1 \<Rightarrow>
          (case fl_tick acks st1 of
             Inl e \<Rightarrow> Some (Inl e)
           | Inr st2 \<Rightarrow>
               (case fl_tick acks (cfg_write F_END (cfg_write F_WREN (cfg_write F_END st2))) of
                  Inl e \<Rightarrow> Some (Inl e)
                | Inr st4 \<Rightarrow>
                    (let st5 = cfg_write F_PP st4;
                         st6 = cfg_write (user_byte v (addr_byte addr 16)) st5;
                         st7 = cfg_write (user_byte v (addr_byte addr 8)) st6;
                         st8 = cfg_write (user_byte v (addr_byte addr 0)) st7
                     in if int (length buf) < ln then Some (Inl BufferOverrun)
                        else (case fl_tick acks
                                     (cfg_write F_END
                                        (write_payload v (take (nat ln) buf) st8)) of
                                Inl e \<Rightarrow> Some (Inl e)
                              | Inr st9 \<Rightarrow>
                                  (case flwait v port st9 of
                                     None \<Rightarrow> None
                                   | Some st10 \<Rightarrow> Some (fl_tick acks st10)))))))"

text \<open>
  The loop of \<open>flprogram(addr, ln, buf)\<close>:
  \<^verbatim>\<open>while (start < addr + ln) {
       if (PAGEOF(addr+ln-1) != PAGEOF(start)) wlen = PAGEOF(start+PGLENB) - start;
       else wlen = addr + ln - start;
       flpage_program(start, wlen, &buf[start-addr]);
       start = PAGEOF(start+PGLENB); }\<close>
  \<open>addr\<close>, \<open>ln\<close> and \<open>start\<close> are \<open>int\<close>s, and so is every sum and difference
  here. A pointer \<open>&buf[start-addr]\<close> that does not point into the array \<open>buf\<close> or
  just behind it is the error \<open>BufferOverrun\<close>. When \<open>start+PGLENB\<close> overflows,
  \<open>start\<close> becomes negative and the loop goes on: it has no bound of its own.
\<close>

partial_function (option) flprogram_loop ::
  "variant \<Rightarrow> port \<Rightarrow> acks \<Rightarrow> int \<Rightarrow> int \<Rightarrow> u8 list \<Rightarrow> int \<Rightarrow> seq_state \<Rightarrow>
     (error + seq_state) option" where
  "flprogram_loop v port acks addr ln buf start st =
     (if start < int32 (addr + ln)
      then (let wlen = (if PAGEOF (int32 (int32 (addr + ln) - 1)) \<noteq> PAGEOF start
                        then int32 (PAGEOF (int32 (start + PGLENB)) - start)
                        else int32 (int32 (addr + ln) - start));
                off = int32 (start - addr)
            in if off < 0 \<or> int (length buf) < off then Some (Inl BufferOverrun)
               else (case flpage_program v port acks start wlen (drop (nat off) buf) st of
                       None \<Rightarrow> None
                     | Some (Inl e) \<Rightarrow> Some (Inl e)
                     | Some (Inr st') \<Rightarrow>
                         flprogram_loop v port acks addr ln buf
                           (PAGEOF (int32 (start + PGLENB))) st'))
      else Some (Inr st))"

declare flprogram_loop.simps [code]

fun flprogram ::
  "variant \<Rightarrow> port \<Rightarrow> acks \<Rightarrow> int \<Rightarrow> int \<Rightarrow> u8 list \<Rightarrow> seq_state \<Rightarrow>
     (error + seq_state) option" where
  "flprogram Single port acks addr ln buf st =
     (case flprogram_loop Single port acks addr ln buf addr st of
        None \<Rightarrow> None
      | Some (Inl e) \<Rightarrow> Some (Inl e)
      | Some (Inr st') \<Rightarrow> map_option Inr (flwait Single port st'))"
| "flprogram Dual port acks addr ln buf st =
     (case flprogram_loop Dual port acks addr ln buf addr (take_offline st) of
        None \<Rightarrow> None
      | Some (Inl e) \<Rightarrow> Some (Inl e)
      | Some (Inr st') \<Rightarrow>
          map_option (\<lambda>st''. Inr (place_online st'')) (flwait Dual port st'))"

text \<open>The start of a run, and three devices: one that is never busy, one that is busy
  for the first two reads and then reports the status \<open>0x1c\<close>, and one that answers
  the identification bytes \<open>20 ba 18 10\<close>. \<open>no_acks\<close> is a core that never
  acknowledges on a tick of the sequencer.\<close>

definition fresh_seq :: seq_state where
  "fresh_seq = \<lparr>nreads = 0, events = []\<rparr>"

definition no_acks :: acks where
  "no_acks k = False"

definition ready_port :: port where
  "ready_port k = 0"

definition busy_twice_port :: port where
  "busy_twice_port k = (if k < 2 then 3 else 0x1c)"

definition id_port :: port where
  "id_port k = (if k = 0 then 0x20 else if k = 1 then 0xba else if k = 2 then 0x18 else 0x10)"

subsection \<open>The sequences, as the specification words them\<close>

text \<open>
  A device is busy when bit 0 of the status word is set; it is eventually ready when
  after every read there is a later one that is not busy. \<open>wait_events\<close> is the
  wait-until-ready frame: RDSR, a dummy write and a read for each status word, a
  de-select. \<open>claimed_erase_events\<close> is the erase sequence as the specification has it
  for every variant: take_offline; WREN between de-selects; SE, three address bytes, the
  most significant first, a de-select; the wait; place_online. \<open>erase_events\<close> is what
  each file does.
\<close>

definition busy :: "u32 \<Rightarrow> bool" where
  "busy r \<longleftrightarrow> r AND 1 \<noteq> 0"

definition eventually_ready :: "port \<Rightarrow> bool" where
  "eventually_ready port \<longleftrightarrow> (\<forall>k. \<exists>n. \<not> busy (port (k + n)))"

definition poll_events :: "u32 \<Rightarrow> u32 list \<Rightarrow> cfg_event list" where
  "poll_events d rs = concat (map (\<lambda>r. [CfgWrite d, CfgRead r]) rs)"

definition wait_events :: "u32 \<Rightarrow> u32 list \<Rightarrow> cfg_event list" where
  "wait_events d rs = CfgWrite F_RDSR # poll_events d rs @ [CfgWrite F_END]"

definition offline_events :: "cfg_event list" where
  "offline_events = map CfgWrite [F_END, F_RESET, F_RESET, F_END]"

definition online_events :: "cfg_event list" where
  "online_events =
     map CfgWrite
       [CFG_USERMODE OR 0xbb,
        CFG_USERMODE OR CFG_DSPEED OR CFG_WEDIR,
        CFG_USERMODE OR CFG_DSPEED OR CFG_WEDIR,
        CFG_USERMODE OR CFG_DSPEED OR CFG_WEDIR,
        CFG_USERMODE OR CFG_DSPEED OR CFG_WEDIR OR 0xa0,
        CFG_USERMODE OR CFG_DSPEED,
        0]"

definition erase_frame_events :: "variant \<Rightarrow> u32 \<Rightarrow> cfg_event list" where
  "erase_frame_events v a =
     map CfgWrite
       [F_END, F_WREN, F_END,
        F_SE,
        user_byte v (drop_bit 16 a AND 0x0ff),
        user_byte v (drop_bit 8 a AND 0x0ff),
        user_byte v (a AND 0x0ff),
        F_END]"

definition claimed_erase_events :: "variant \<Rightarrow> u32 \<Rightarrow> u32 list \<Rightarrow> cfg_event list" where
  "claimed_erase_events v a rs =
     offline_events @ erase_frame_events v a @ wait_events (dummy v) rs @ online_events"

fun erase_events :: "variant \<Rightarrow> u32 \<Rightarrow> u32 list \<Rightarrow> cfg_event list" where
  "erase_events Single a rs = erase_frame_events Single a @ wait_events (dummy Single) rs"
| "erase_events Dual a rs = claimed_erase_events Dual a rs"

text \<open>The arguments of the calls of \<open>flpage_program\<close> in a trace, in order, and the
  arguments the loop of \<open>flprogram\<close> computes from \<open>start\<close> on when no sum
  overflows.\<close>

fun page_program_calls :: "cfg_event list \<Rightarrow> (int \<times> int) list" where
  "page_program_calls [] = []"
| "page_program_calls (PageProgram a n # evs) = (a, n) # page_program_calls evs"
| "page_program_calls (e # evs) = page_program_calls evs"


function page_splits :: "int \<Rightarrow> int \<Rightarrow> int \<Rightarrow> (int \<times> int) list" where
  "page_splits addr ln start =
     (if start < addr + ln
      then (start, (if PAGEOF (addr + ln - 1) \<noteq> PAGEOF start
                    then PAGEOF (start + PGLENB) - start
                    else addr + ln - start))
           # page_splits addr ln (PAGEOF (start + PGLENB))
      else [])"
  by pat_completeness auto
termination
proof (relation "measure (\<lambda>(addr, ln, start). nat (addr + ln - start))")
  show "wf (measure (\<lambda>(addr, ln, start). nat (addr + ln - start)))" by simp
next
  fix addr ln start :: int
  assume "start < addr + ln"
  moreover have "NOT (mask 8) = push_bit 8 (- 1 :: int)"
    by simp
  then have "PAGEOF (start + PGLENB) = push_bit 8 (drop_bit 8 (start + 256))"
    unfolding PAGEOF_def PGLENB_def by (intro bit_eqI) (auto simp: bit_simps)
  then have "start < PAGEOF (start + PGLENB)"
    by (simp add: push_bit_eq_mult drop_bit_eq_div)
  ultimately show "((addr, ln, PAGEOF (start + PGLENB)), addr, ln, start)
           \<in> measure (\<lambda>(addr, ln, start). nat (addr + ln - start))"
    by simp
qed

declare page_splits.simps [simp del]

section \<open>The scenario driver (\<open>main\<close> of qspiflash\_tb.cpp)\<close>



text \<open>
  The state of \<open>main\<close>: the test bench object, the locals \<open>rdv\<close> and \<open>rdbuf\<close>, and
  the lines written to the standard output so far. Only the lines that \<open>main\<close> itself
  prints are recorded (the progress messages of the transactor's burst read are not), each
  as its format string, without the arguments expanded and without the newline.
\<close>

record 'd driver =
  tb :: "'d qspiflash_tb"
  rdv :: u32
  rdbuf :: "u32 list"
  stdout :: "string list"

text \<open>
  How a statement of \<open>main\<close> ends: it completes with a value (\<open>Ok\<close>), it takes
  \<open>goto test_failure\<close> (\<open>Jump\<close>), or an \<open>assert\<close> fails and the process is aborted
  (\<open>Dead\<close>, with the output written until then). A loop of \<open>main\<close> that never ends is
  the value \<open>None\<close>. How the process ends: through \<open>exit(code)\<close>, or aborted.
\<close>

datatype ('a, 'd) res = Ok 'a "'d driver" | Jump "'d driver" | Dead "string list"

































section \<open>Theorems\<close>

subsection \<open>The waits leave the request pins alone\<close>

lemma testb_tick_pins [simp]:
  "i_wb_cyc (testb_tick dut s) = i_wb_cyc s"
  "i_wb_data_stb (testb_tick dut s) = i_wb_data_stb s"
  "i_wb_ctrl_stb (testb_tick dut s) = i_wb_ctrl_stb s"
  "i_wb_we (testb_tick dut s) = i_wb_we s"
  "i_wb_addr (testb_tick dut s) = i_wb_addr s"
  "i_wb_data (testb_tick dut s) = i_wb_data s"
  "m_bomb (testb_tick dut s) = m_bomb s"
  "m_ack_expected (testb_tick dut s) = m_ack_expected s"
  "wbflash_tb.more (testb_tick dut s) = wbflash_tb.more s"
  by (simp_all add: testb_tick_def split: prod.splits)

lemma tick_Inr_iff:
  "tick dut s = Inr s' \<longleftrightarrow>
     s' = testb_tick dut s \<and> (i_wb_cyc s \<or> \<not> o_wb_ack (testb_tick dut s))"
  by (auto simp: tick_def Let_def)

lemma tick_Inl_iff:
  "tick dut s = Inl e \<longleftrightarrow>
     e = AssertionFailed \<and> \<not> i_wb_cyc s \<and> o_wb_ack (testb_tick dut s)"
  by (auto simp: tick_def Let_def)

lemma drain_stall_props_aux:
  assumes "drain_stall dut s = Some r"
  shows "case r of Inl e \<Rightarrow> True
         | Inr s' \<Rightarrow>
             \<not> o_wb_stall s' \<and> i_wb_cyc s' = i_wb_cyc s
             \<and> i_wb_data_stb s' = i_wb_data_stb s \<and> i_wb_ctrl_stb s' = i_wb_ctrl_stb s
             \<and> m_bomb s' = m_bomb s \<and> wbflash_tb.more s' = wbflash_tb.more s
             \<and> (\<not> i_wb_cyc s \<and> \<not> o_wb_ack s \<longrightarrow> \<not> o_wb_ack s')"
proof (rule drain_stall.raw_induct [OF _ assms])
  fix drain :: "'a dut \<Rightarrow> ('a, 'b) wbflash_tb_scheme \<Rightarrow>
                  (error + ('a, 'b) wbflash_tb_scheme) option"
    and dut s r
  assume ih: "\<And>d s r. drain d s = Some r \<Longrightarrow>
      (case r of Inl e \<Rightarrow> True
       | Inr s' \<Rightarrow>
           \<not> o_wb_stall s' \<and> i_wb_cyc s' = i_wb_cyc s
           \<and> i_wb_data_stb s' = i_wb_data_stb s \<and> i_wb_ctrl_stb s' = i_wb_ctrl_stb s
           \<and> m_bomb s' = m_bomb s \<and> wbflash_tb.more s' = wbflash_tb.more s
           \<and> (\<not> i_wb_cyc s \<and> \<not> o_wb_ack s \<longrightarrow> \<not> o_wb_ack s'))"
    and eq: "(if o_wb_stall s
              then (case tick dut s of Inl e \<Rightarrow> Some (Inl e) | Inr s' \<Rightarrow> drain dut s')
              else Some (Inr s)) = Some r"
  show "case r of Inl e \<Rightarrow> True
        | Inr s' \<Rightarrow>
            \<not> o_wb_stall s' \<and> i_wb_cyc s' = i_wb_cyc s
            \<and> i_wb_data_stb s' = i_wb_data_stb s \<and> i_wb_ctrl_stb s' = i_wb_ctrl_stb s
            \<and> m_bomb s' = m_bomb s \<and> wbflash_tb.more s' = wbflash_tb.more s
            \<and> (\<not> i_wb_cyc s \<and> \<not> o_wb_ack s \<longrightarrow> \<not> o_wb_ack s')"
  proof (cases "o_wb_stall s")
    case False
    with eq show ?thesis by auto
  next
    case True
    show ?thesis
    proof (cases "tick dut s")
      case (Inl e)
      with True eq show ?thesis by auto
    next
      case (Inr s1)
      with True eq have d: "drain dut s1 = Some r" by simp
      from Inr have s1: "s1 = testb_tick dut s"
        and ok: "i_wb_cyc s \<or> \<not> o_wb_ack s1"
        by (auto simp: tick_Inr_iff)
      show ?thesis
      proof (cases r)
        case (Inl e)
        then show ?thesis by simp
      next
        case r: (Inr s')
        from ih [OF d] r s1 ok show ?thesis by auto
      qed
    qed
  qed
qed

lemma drain_stall_props:
  assumes "drain_stall dut s = Some (Inr s')"
  shows "\<not> o_wb_stall s'" "i_wb_cyc s' = i_wb_cyc s"
    "i_wb_data_stb s' = i_wb_data_stb s" "i_wb_ctrl_stb s' = i_wb_ctrl_stb s"
    "m_bomb s' = m_bomb s" "wbflash_tb.more s' = wbflash_tb.more s"
    "\<not> i_wb_cyc s \<Longrightarrow> \<not> o_wb_ack s \<Longrightarrow> \<not> o_wb_ack s'"
  using drain_stall_props_aux [OF assms] by simp_all

subsection \<open>C1: an acknowledge without a cycle is fatal\<close>

text \<open>
  C1. On every clock tick advanced by the bus transactor, if the core's acknowledge
  output is asserted then the cycle input is asserted too: \<open>tick\<close> returns normally
  exactly when, after the clock, the cycle line is up or the acknowledge is down, and the
  object it returns is the one the clock produced; in every other case, that is when an
  acknowledge is observed while the cycle line is down, the assertion fails and nothing
  is returned but the fatal error.
\<close>

theorem tick_ack_implies_cyc:
  "(case tick dut s of
      Inr s' \<Rightarrow> s' = testb_tick dut s \<and> (o_wb_ack s' \<longrightarrow> i_wb_cyc s')
    | Inl e \<Rightarrow> e = AssertionFailed \<and> o_wb_ack (testb_tick dut s)
               \<and> \<not> i_wb_cyc (testb_tick dut s))"
  by (auto simp: tick_def Let_def)

theorem tick_ack_implies_cyc_witness:
  "tick echo_core ((new_tb 0)\<lparr>i_wb_cyc := True, i_wb_data_stb := True\<rparr>)
     = Inr (testb_tick echo_core ((new_tb 0)\<lparr>i_wb_cyc := True, i_wb_data_stb := True\<rparr>))
   \<and> o_wb_ack (testb_tick echo_core ((new_tb 0)\<lparr>i_wb_cyc := True, i_wb_data_stb := True\<rparr>))
   \<and> tick babbling_core (new_tb ()) = Inl AssertionFailed"
  using tick_ack_implies_cyc [of echo_core "(new_tb 0)\<lparr>i_wb_cyc := True, i_wb_data_stb := True\<rparr>"]
    tick_ack_implies_cyc [of babbling_core "new_tb ()"]
  by (simp add: tick_def testb_tick_def request_pins_def echo_core_def new_tb_def
      babbling_core_def WBFLASH_TB_def Let_def)

subsection \<open>C7: the end of a single-word read\<close>

lemma read_release_pins [simp]:
  "\<not> i_wb_cyc (read_release errcount s)"
  "\<not> i_wb_data_stb (read_release errcount s)"
  "\<not> i_wb_ctrl_stb (read_release errcount s)"
  "o_wb_ack (read_release errcount s) = o_wb_ack s"
  "o_wb_data (read_release errcount s) = o_wb_data s"
  "m_tickcount (read_release errcount s) = m_tickcount s"
  "wbflash_tb.more (read_release errcount s) = wbflash_tb.more s"
  by (simp_all add: read_release_def Let_def)

lemma tick_assert_drain_props:
  assumes "tick_assert_drain dut s = Some (Inr s')"
  shows "\<exists>s1. tick dut s = Inr s1 \<and> \<not> o_wb_ack s1 \<and> drain_stall dut s1 = Some (Inr s')"
  using assms
  by (auto simp: tick_assert_drain_def split: sum.splits if_splits)

lemma testb_tick_request_pins:
  "request_pins (testb_tick dut s) = request_pins s"
  by (simp add: testb_tick_def request_pins_def split: prod.splits)

lemma funpow_tick_request_pins:
  "request_pins ((testb_tick dut ^^ n) s) = request_pins s"
  by (induction n) (simp_all add: testb_tick_request_pins)

lemma funpow_tick_count:
  "m_tickcount ((testb_tick dut ^^ n) s) = m_tickcount s + n"
  by (induction n) (simp_all add: testb_tick_def split: prod.splits)

lemma funpow_tick_trace:
  "m_trace ((testb_tick dut ^^ n) s) = m_trace s @ replicate n (request_pins s)"
proof (induction n)
  case 0
  show ?case by simp
next
  case (Suc n)
  have "m_trace (testb_tick dut ((testb_tick dut ^^ n) s))
          = m_trace ((testb_tick dut ^^ n) s) @ [request_pins ((testb_tick dut ^^ n) s)]"
    by (simp add: testb_tick_def split: prod.splits)
  with Suc show ?case by (simp add: replicate_append_same funpow_tick_request_pins)
qed

lemma drain_stall_ticks_aux:
  assumes "drain_stall dut s = Some r"
  shows "\<forall>s'. r = Inr s' \<longrightarrow>
           (\<exists>n. s' = (testb_tick dut ^^ n) s \<and> (\<forall>k<n. o_wb_stall ((testb_tick dut ^^ k) s)))"
proof (rule drain_stall.raw_induct [OF _ assms])
  fix drain :: "'a dut \<Rightarrow> ('a, 'b) wbflash_tb_scheme \<Rightarrow>
                  (error + ('a, 'b) wbflash_tb_scheme) option"
    and dut s r
  assume ih: "\<And>d s r. drain d s = Some r \<Longrightarrow>
      \<forall>s'. r = Inr s' \<longrightarrow>
        (\<exists>n. s' = (testb_tick d ^^ n) s \<and> (\<forall>k<n. o_wb_stall ((testb_tick d ^^ k) s)))"
    and eq: "(if o_wb_stall s
              then (case tick dut s of Inl e \<Rightarrow> Some (Inl e) | Inr s' \<Rightarrow> drain dut s')
              else Some (Inr s)) = Some r"
  show "\<forall>s'. r = Inr s' \<longrightarrow>
          (\<exists>n. s' = (testb_tick dut ^^ n) s \<and> (\<forall>k<n. o_wb_stall ((testb_tick dut ^^ k) s)))"
  proof (intro allI impI)
    fix s' assume r: "r = Inr s'"
    show "\<exists>n. s' = (testb_tick dut ^^ n) s \<and> (\<forall>k<n. o_wb_stall ((testb_tick dut ^^ k) s))"
    proof (cases "o_wb_stall s")
      case False
      with eq r have "s' = s" by simp
      then have "s' = (testb_tick dut ^^ 0) s \<and> (\<forall>k<0. o_wb_stall ((testb_tick dut ^^ k) s))"
        by simp
      then show ?thesis by (rule exI)
    next
      case True
      show ?thesis
      proof (cases "tick dut s")
        case (Inl e)
        with True eq r show ?thesis by simp
      next
        case (Inr s1)
        with True eq have d: "drain dut s1 = Some r" by simp
        from Inr have s1: "s1 = testb_tick dut s" by (simp add: tick_Inr_iff)
        from ih [OF d, rule_format, OF r] obtain n where
          n: "s' = (testb_tick dut ^^ n) s1" "\<forall>k<n. o_wb_stall ((testb_tick dut ^^ k) s1)"
          by blast
        have a: "s' = (testb_tick dut ^^ Suc n) s"
          unfolding n(1) s1 by (simp only: funpow_Suc_right o_apply)
        have b: "\<forall>k<Suc n. o_wb_stall ((testb_tick dut ^^ k) s)"
        proof (intro allI impI)
          fix k assume kn: "k < Suc n"
          show "o_wb_stall ((testb_tick dut ^^ k) s)"
          proof (cases k)
            case 0
            with True show ?thesis by simp
          next
            case (Suc j)
            with kn have "j < n" by simp
            with n(2) have "o_wb_stall ((testb_tick dut ^^ j) s1)" by blast
            then show ?thesis unfolding Suc s1 by (simp only: funpow_Suc_right o_apply)
          qed
        qed
        from a b show ?thesis by blast
      qed
    qed
  qed
qed

lemma drain_stall_ticks:
  assumes "drain_stall dut s = Some (Inr s')"
  shows "\<exists>n. s' = (testb_tick dut ^^ n) s \<and> (\<forall>k<n. o_wb_stall ((testb_tick dut ^^ k) s))"
  using drain_stall_ticks_aux [OF assms] by blast

lemma drain_stall_returns:
  assumes "\<not> i_wb_cyc s"
    and "\<forall>k\<le>n. \<not> o_wb_ack ((testb_tick dut ^^ k) s)"
    and "\<not> o_wb_stall ((testb_tick dut ^^ n) s)"
  shows "\<exists>s'. drain_stall dut s = Some (Inr s')"
  using assms
proof (induction n arbitrary: s)
  case 0
  then show ?case by (simp add: drain_stall.simps)
next
  case (Suc n)
  show ?case
  proof (cases "o_wb_stall s")
    case False
    then show ?thesis by (simp add: drain_stall.simps)
  next
    case True
    have "(1::nat) \<le> Suc n" by simp
    with Suc.prems(2) have "\<not> o_wb_ack ((testb_tick dut ^^ 1) s)" by blast
    then have na: "\<not> o_wb_ack (testb_tick dut s)" by simp
    then have t: "tick dut s = Inr (testb_tick dut s)" by (simp add: tick_Inr_iff)
    have "\<forall>k\<le>n. \<not> o_wb_ack ((testb_tick dut ^^ k) (testb_tick dut s))"
    proof (intro allI impI)
      fix k assume "k \<le> n"
      then have "Suc k \<le> Suc n" by simp
      with Suc.prems(2) have "\<not> o_wb_ack ((testb_tick dut ^^ Suc k) s)" by blast
      then show "\<not> o_wb_ack ((testb_tick dut ^^ k) (testb_tick dut s))"
        by (simp only: funpow_Suc_right o_apply simp_thms)
    qed
    moreover have "\<not> o_wb_stall ((testb_tick dut ^^ n) (testb_tick dut s))"
      using Suc.prems(3) by (simp only: funpow_Suc_right o_apply simp_thms)
    moreover have "\<not> i_wb_cyc (testb_tick dut s)" using Suc.prems(1) by simp
    ultimately obtain s' where "drain_stall dut (testb_tick dut s) = Some (Inr s')"
      using Suc.IH by blast
    with True t show ?thesis by (subst drain_stall.simps) simp
  qed
qed

text \<open>
  C7. Every single-word \<open>wb_read\<close> that returns has, after capturing its data from the
  pins at the end of the wait for the acknowledge, de-asserted the cycle line and both
  strobes; it has then ticked exactly once more, and after that tick the acknowledge was
  not asserted; it has then drained the trailing stall by ticking: the object it returns
  is the one after \<open>n\<close> further clocks, the stall line was high before each of them and
  is low after the last, and the waveform shows these \<open>n\<close> clocks with the bus released;
  on return neither stall nor acknowledge is asserted. And the call does return, with the
  captured data, whenever the stall line is low after some number of clocks that follow
  the release with the acknowledge low.
\<close>

theorem wb_read_release_tick_drain:
  "(wb_read dut a s = Some (Inr (result, s')) \<longrightarrow>
      (\<exists>errcount s4 s6 n.
           read_request dut False a s = Inr (errcount, s4)
           \<and> result = o_wb_data s4
           \<and> \<not> i_wb_cyc (read_release errcount s4)
           \<and> \<not> i_wb_data_stb (read_release errcount s4)
           \<and> \<not> i_wb_ctrl_stb (read_release errcount s4)
           \<and> tick dut (read_release errcount s4) = Inr s6
           \<and> m_tickcount s6 = m_tickcount s4 + 1
           \<and> \<not> o_wb_ack s6
           \<and> drain_stall dut s6 = Some (Inr s')
           \<and> s' = (testb_tick dut ^^ n) s6
           \<and> (\<forall>k<n. o_wb_stall ((testb_tick dut ^^ k) s6))
           \<and> m_tickcount s' = m_tickcount s6 + n
           \<and> m_trace s' = m_trace s6 @ replicate n (request_pins s6)
           \<and> \<not> p_cyc (request_pins s6) \<and> \<not> p_data_stb (request_pins s6)
           \<and> \<not> p_ctrl_stb (request_pins s6)
           \<and> \<not> o_wb_stall s' \<and> \<not> o_wb_ack s'
           \<and> \<not> i_wb_cyc s' \<and> \<not> i_wb_data_stb s' \<and> \<not> i_wb_ctrl_stb s'))
   \<and> (read_request dut False a s = Inr (ec, sa)
        \<and> (\<forall>k\<le>m. \<not> o_wb_ack ((testb_tick dut ^^ k) (testb_tick dut (read_release ec sa))))
        \<and> \<not> o_wb_stall ((testb_tick dut ^^ m) (testb_tick dut (read_release ec sa)))
      \<longrightarrow> (\<exists>s''. wb_read dut a s = Some (Inr (o_wb_data sa, s''))))"
proof (intro conjI impI)
  assume run: "wb_read dut a s = Some (Inr (result, s'))"
  then obtain errcount s4 where
    rq: "read_request dut False a s = Inr (errcount, s4)"
    and res: "result = o_wb_data s4"
    and tad: "tick_assert_drain dut (read_release errcount s4) = Some (Inr s')"
    by (auto simp: wb_read_def single_read_def Let_def split: sum.splits option.splits)
  from tick_assert_drain_props [OF tad] obtain s6 where
    t: "tick dut (read_release errcount s4) = Inr s6"
    and na: "\<not> o_wb_ack s6"
    and dr: "drain_stall dut s6 = Some (Inr s')"
    by blast
  from t have s6: "s6 = testb_tick dut (read_release errcount s4)"
    by (simp add: tick_Inr_iff)
  have pins6: "\<not> i_wb_cyc s6" "\<not> i_wb_data_stb s6" "\<not> i_wb_ctrl_stb s6"
    by (simp_all add: s6)
  have cnt: "m_tickcount s6 = m_tickcount s4 + 1"
    by (simp add: s6 testb_tick_def split: prod.splits)
  from drain_stall_props [OF dr] pins6 na
  have fin: "\<not> o_wb_stall s'" "\<not> o_wb_ack s'" "\<not> i_wb_cyc s'"
    "\<not> i_wb_data_stb s'" "\<not> i_wb_ctrl_stb s'"
    by simp_all
  from drain_stall_ticks [OF dr] obtain n where
    n: "s' = (testb_tick dut ^^ n) s6" "\<forall>k<n. o_wb_stall ((testb_tick dut ^^ k) s6)"
    by blast
  have tc: "m_tickcount s' = m_tickcount s6 + n"
    and tr: "m_trace s' = m_trace s6 @ replicate n (request_pins s6)"
    by (simp_all add: n(1) funpow_tick_count funpow_tick_trace)
  have rp: "\<not> p_cyc (request_pins s6)" "\<not> p_data_stb (request_pins s6)"
    "\<not> p_ctrl_stb (request_pins s6)"
    using pins6 by (simp_all add: request_pins_def)
  from rq res t cnt na dr fin n tc tr rp
  show "\<exists>errcount s4 s6 n.
           read_request dut False a s = Inr (errcount, s4)
           \<and> result = o_wb_data s4
           \<and> \<not> i_wb_cyc (read_release errcount s4)
           \<and> \<not> i_wb_data_stb (read_release errcount s4)
           \<and> \<not> i_wb_ctrl_stb (read_release errcount s4)
           \<and> tick dut (read_release errcount s4) = Inr s6
           \<and> m_tickcount s6 = m_tickcount s4 + 1
           \<and> \<not> o_wb_ack s6
           \<and> drain_stall dut s6 = Some (Inr s')
           \<and> s' = (testb_tick dut ^^ n) s6
           \<and> (\<forall>k<n. o_wb_stall ((testb_tick dut ^^ k) s6))
           \<and> m_tickcount s' = m_tickcount s6 + n
           \<and> m_trace s' = m_trace s6 @ replicate n (request_pins s6)
           \<and> \<not> p_cyc (request_pins s6) \<and> \<not> p_data_stb (request_pins s6)
           \<and> \<not> p_ctrl_stb (request_pins s6)
           \<and> \<not> o_wb_stall s' \<and> \<not> o_wb_ack s'
           \<and> \<not> i_wb_cyc s' \<and> \<not> i_wb_data_stb s' \<and> \<not> i_wb_ctrl_stb s'"
    by (intro exI [of _ errcount] exI [of _ s4] exI [of _ s6] exI [of _ n]) simp
next
  assume h: "read_request dut False a s = Inr (ec, sa)
        \<and> (\<forall>k\<le>m. \<not> o_wb_ack ((testb_tick dut ^^ k) (testb_tick dut (read_release ec sa))))
        \<and> \<not> o_wb_stall ((testb_tick dut ^^ m) (testb_tick dut (read_release ec sa)))"
  let ?s6 = "testb_tick dut (read_release ec sa)"
  from h have "\<not> o_wb_ack ((testb_tick dut ^^ 0) ?s6)" by blast
  then have na: "\<not> o_wb_ack ?s6" by simp
  then have t: "tick dut (read_release ec sa) = Inr ?s6" by (simp add: tick_Inr_iff)
  have "\<not> i_wb_cyc ?s6" by simp
  from h have h2: "\<forall>k\<le>m. \<not> o_wb_ack ((testb_tick dut ^^ k) ?s6)"
    and h3: "\<not> o_wb_stall ((testb_tick dut ^^ m) ?s6)" by blast+
  have rq2: "read_request dut False a s = Inr (ec, sa)" using h by blast
  from drain_stall_returns [OF \<open>\<not> i_wb_cyc ?s6\<close> h2 h3] obtain s'' where
    "drain_stall dut ?s6 = Some (Inr s'')" by blast
  with rq2 t na show "\<exists>s''. wb_read dut a s = Some (Inr (o_wb_data sa, s''))"
    by (simp add: wb_read_def single_read_def tick_assert_drain_def Let_def)
qed

theorem wb_read_release_tick_drain_witness:
  "wb_read lingering_core 8 (new_tb 0) =
     Some (Inr (2, (new_tb 0)\<lparr>m_core := 0, i_wb_addr := 2, m_tickcount := 4,
       m_trace := [\<lparr>p_cyc = True, p_data_stb = True, p_ctrl_stb = False,
                     p_we = False, p_addr = 2, p_data = 0\<rparr>,
                   \<lparr>p_cyc = False, p_data_stb = False, p_ctrl_stb = False,
                     p_we = False, p_addr = 2, p_data = 0\<rparr>,
                   \<lparr>p_cyc = False, p_data_stb = False, p_ctrl_stb = False,
                     p_we = False, p_addr = 2, p_data = 0\<rparr>,
                   \<lparr>p_cyc = False, p_data_stb = False, p_ctrl_stb = False,
                     p_we = False, p_addr = 2, p_data = 0\<rparr>]\<rparr>))
   \<and> (\<exists>errcount s4 s6 s'.
         read_request lingering_core False 8 (new_tb 0) = Inr (errcount, s4)
         \<and> (2 :: u32) = o_wb_data s4
         \<and> tick lingering_core (read_release errcount s4) = Inr s6
         \<and> \<not> o_wb_ack s6 \<and> o_wb_stall s6 \<and> o_wb_stall (testb_tick lingering_core s6)
         \<and> wb_read lingering_core 8 (new_tb 0) = Some (Inr (2, s'))
         \<and> s' = (testb_tick lingering_core ^^ 2) s6
         \<and> \<not> o_wb_stall s'
         \<and> m_trace s' = m_trace s6 @ replicate 2 (request_pins s6))
   \<and> (\<exists>s''. wb_read lingering_core 8 (new_tb 0) = Some (Inr (2, s'')))"
proof -
  let ?F = "(new_tb (0::nat))\<lparr>m_core := 0, i_wb_addr := 2, m_tickcount := 4,
       m_trace := [\<lparr>p_cyc = True, p_data_stb = True, p_ctrl_stb = False,
                     p_we = False, p_addr = 2, p_data = 0\<rparr>,
                   \<lparr>p_cyc = False, p_data_stb = False, p_ctrl_stb = False,
                     p_we = False, p_addr = 2, p_data = 0\<rparr>,
                   \<lparr>p_cyc = False, p_data_stb = False, p_ctrl_stb = False,
                     p_we = False, p_addr = 2, p_data = 0\<rparr>,
                   \<lparr>p_cyc = False, p_data_stb = False, p_ctrl_stb = False,
                     p_we = False, p_addr = 2, p_data = 0\<rparr>]\<rparr>"
  let ?S4 = "(new_tb (0::nat))\<lparr>m_core := 2, i_wb_cyc := True, i_wb_addr := 2,
       o_wb_ack := True, o_wb_data := 2, m_tickcount := 1,
       m_trace := [\<lparr>p_cyc = True, p_data_stb = True, p_ctrl_stb = False,
                     p_we = False, p_addr = 2, p_data = 0\<rparr>]\<rparr>"
  have run: "wb_read lingering_core 8 (new_tb 0) = Some (Inr (2, ?F))"
    by code_simp
  have rq: "read_request lingering_core False 8 (new_tb 0) = Inr (1, ?S4)"
    by code_simp
  have tc: "m_tickcount ?F = 4" "m_tickcount ?S4 = 1" by simp_all
  from wb_read_release_tick_drain [where dut = lingering_core and a = 8 and s = "new_tb 0"
      and result = 2 and s' = ?F, THEN conjunct1, THEN mp, OF run]
  obtain errcount s4 s6 n where
    a: "read_request lingering_core False 8 (new_tb 0) = Inr (errcount, s4)"
      "(2 :: u32) = o_wb_data s4"
      "tick lingering_core (read_release errcount s4) = Inr s6"
      "m_tickcount s6 = m_tickcount s4 + 1" "\<not> o_wb_ack s6"
      "?F = (testb_tick lingering_core ^^ n) s6"
      "\<forall>k<n. o_wb_stall ((testb_tick lingering_core ^^ k) s6)"
      "m_tickcount ?F = m_tickcount s6 + n"
      "m_trace ?F = m_trace s6 @ replicate n (request_pins s6)"
      "\<not> o_wb_stall ?F"
    by blast
  from a(1) rq have s4: "s4 = ?S4" by simp
  from a(4,8) s4 tc have n: "n = 2" by simp
  have "(0::nat) < 2" "(1::nat) < 2" by simp_all
  with a(7) [unfolded n] have "o_wb_stall ((testb_tick lingering_core ^^ 0) s6)"
    "o_wb_stall ((testb_tick lingering_core ^^ 1) s6)" by blast+
  then have st': "o_wb_stall s6" "o_wb_stall (testb_tick lingering_core s6)" by simp_all
  have first: "\<exists>errcount s4 s6 s'.
         read_request lingering_core False 8 (new_tb 0) = Inr (errcount, s4)
         \<and> (2 :: u32) = o_wb_data s4
         \<and> tick lingering_core (read_release errcount s4) = Inr s6
         \<and> \<not> o_wb_ack s6 \<and> o_wb_stall s6 \<and> o_wb_stall (testb_tick lingering_core s6)
         \<and> wb_read lingering_core 8 (new_tb 0) = Some (Inr (2, s'))
         \<and> s' = (testb_tick lingering_core ^^ 2) s6
         \<and> \<not> o_wb_stall s'
         \<and> m_trace s' = m_trace s6 @ replicate 2 (request_pins s6)"
    using a(1,2,3,5,6,9,10) st' run unfolding n
    by (intro exI [of _ errcount] exI [of _ s4] exI [of _ s6] exI [of _ ?F]) blast
  have k0: "\<not> o_wb_ack ((testb_tick lingering_core ^^ 0)
                  (testb_tick lingering_core (read_release 1 ?S4)))"
    and k1: "\<not> o_wb_ack ((testb_tick lingering_core ^^ 1)
                  (testb_tick lingering_core (read_release 1 ?S4)))"
    and k2: "\<not> o_wb_ack ((testb_tick lingering_core ^^ 2)
                  (testb_tick lingering_core (read_release 1 ?S4)))"
    and ns: "\<not> o_wb_stall ((testb_tick lingering_core ^^ 2)
                  (testb_tick lingering_core (read_release 1 ?S4)))"
    by code_simp+
  have acks: "\<forall>k\<le>2. \<not> o_wb_ack ((testb_tick lingering_core ^^ k)
                  (testb_tick lingering_core (read_release 1 ?S4)))"
  proof (intro allI impI)
    fix k :: nat assume "k \<le> 2"
    then consider "k = 0" | "k = 1" | "k = 2" by linarith
    then show "\<not> o_wb_ack ((testb_tick lingering_core ^^ k)
                  (testb_tick lingering_core (read_release 1 ?S4)))"
      using k0 k1 k2 by cases simp_all
  qed
  from wb_read_release_tick_drain [where dut = lingering_core and a = 8 and s = "new_tb 0"
      and ec = 1 and sa = ?S4 and m = 2, THEN conjunct2, THEN mp, OF conjI [OF rq conjI [OF acks ns]]]
  have second: "\<exists>s''. wb_read lingering_core 8 (new_tb 0) = Some (Inr (2, s''))"
    by simp
  from run first second show ?thesis by blast
qed

subsection \<open>What the waits and the loops leave alone\<close>

lemma ctl_frame_refl [simp]: "ctl_frame s s"
  by (simp add: ctl_frame_def)

lemma ctl_frame_trans: "ctl_frame s s1 \<Longrightarrow> ctl_frame s1 s2 \<Longrightarrow> ctl_frame s s2"
  by (simp add: ctl_frame_def)

lemma ctl_frame_tick: "tick dut s = Inr s' \<Longrightarrow> ctl_frame s s'"
  by (auto simp: tick_Inr_iff ctl_frame_def)

lemma ctl_frame_addr [simp]:
  "ctl_frame s (s'\<lparr>i_wb_addr := x\<rparr>) = ctl_frame s s'"
  "ctl_frame s (s'\<lparr>i_wb_data := y\<rparr>) = ctl_frame s s'"
  "ctl_frame (s\<lparr>i_wb_addr := x\<rparr>) s' = ctl_frame s s'"
  "ctl_frame (s\<lparr>i_wb_data := y\<rparr>) s' = ctl_frame s s'"
  by (simp_all add: ctl_frame_def)

lemma wait_while_stalled_frame:
  "wait_while_stalled dut errcount s = Inr (errcount', s') \<Longrightarrow>
     ctl_frame s s' \<and> errcount < errcount'"
proof (induction dut errcount s rule: wait_while_stalled.induct)
  case (1 dut errcount s)
  show ?case
  proof (cases "errcount < BOMBCOUNT \<and> o_wb_stall s")
    case False
    with "1.prems" wait_while_stalled.simps [of dut errcount s] show ?thesis by auto
  next
    case True
    show ?thesis
    proof (cases "tick dut s")
      case (Inl e)
      with True "1.prems" wait_while_stalled.simps [of dut errcount s] show ?thesis by simp
    next
      case (Inr s1)
      with True "1.prems" wait_while_stalled.simps [of dut errcount s]
      have "wait_while_stalled dut (errcount + 1) s1 = Inr (errcount', s')" by simp
      from "1.IH" [OF True Inr this] ctl_frame_tick [OF Inr] show ?thesis
        by (auto intro: ctl_frame_trans)
    qed
  qed
qed

lemma wait_for_ack_frame:
  "wait_for_ack dut errcount s = Inr (errcount', s') \<Longrightarrow>
     ctl_frame s s' \<and> errcount < errcount' \<and> (errcount' \<le> BOMBCOUNT \<longrightarrow> o_wb_ack s')"
proof (induction dut errcount s rule: wait_for_ack.induct)
  case (1 dut errcount s)
  show ?case
  proof (cases "errcount < BOMBCOUNT \<and> \<not> o_wb_ack s")
    case False
    with "1.prems" wait_for_ack.simps [of dut errcount s] show ?thesis by auto
  next
    case True
    show ?thesis
    proof (cases "tick dut s")
      case (Inl e)
      with True "1.prems" wait_for_ack.simps [of dut errcount s] show ?thesis by simp
    next
      case (Inr s1)
      with True "1.prems" wait_for_ack.simps [of dut errcount s]
      have "wait_for_ack dut (errcount + 1) s1 = Inr (errcount', s')" by simp
      from "1.IH" [OF True Inr this] ctl_frame_tick [OF Inr] show ?thesis
        by (auto intro: ctl_frame_trans)
    qed
  qed
qed

lemma tick_trace: "tick dut s = Inr s' \<Longrightarrow> m_trace s' = m_trace s @ [request_pins s]"
  by (auto simp: tick_Inr_iff testb_tick_def split: prod.splits)

lemma post_wait_stalled_frame:
  "post_wait_stalled dut errcount nacks s = Inr (nacks', s') \<Longrightarrow> ctl_frame s s'"
proof (induction dut errcount nacks s rule: post_wait_stalled.induct)
  case (1 dut errcount nacks s)
  show ?case
  proof (cases "errcount < BOMBCOUNT \<and> o_wb_stall s")
    case False
    with "1.prems" post_wait_stalled.simps [of dut errcount nacks s] show ?thesis by auto
  next
    case True
    show ?thesis
    proof (cases "tick dut s")
      case (Inl e)
      with True "1.prems" post_wait_stalled.simps [of dut errcount nacks s]
      show ?thesis by simp
    next
      case (Inr s1)
      with True "1.prems" post_wait_stalled.simps [of dut errcount nacks s]
      have "post_wait_stalled dut (errcount + 1) (if o_wb_ack s1 then nacks + 1 else nacks) s1
              = Inr (nacks', s')" by simp
      from "1.IH" [OF True Inr this] ctl_frame_tick [OF Inr] show ?thesis
        by (auto intro: ctl_frame_trans)
    qed
  qed
qed

lemma burst_write_post_frame:
  "burst_write_post dut ln inc buf stbcnt nacks s = Inr (nacks', s') \<Longrightarrow> ctl_frame s s'"
proof (induction dut ln inc buf stbcnt nacks s rule: burst_write_post.induct)
  case (1 dut ln inc buf stbcnt nacks s)
  note eq = burst_write_post.simps [of dut ln inc buf stbcnt nacks s]
  show ?case
  proof (cases "stbcnt < ln")
    case False
    with "1.prems" eq show ?thesis by auto
  next
    case lt: True
    show ?thesis
    proof (cases "stbcnt < length buf")
      case False
      with lt "1.prems" eq show ?thesis by simp
    next
      case inb: True
      show ?thesis
      proof (cases "post_wait_stalled dut 0 nacks (s\<lparr>i_wb_data := buf ! stbcnt\<rparr>)")
        case (Inl e)
        with lt inb "1.prems" eq show ?thesis by simp
      next
        case (Inr r)
        obtain nacks1 s2 where r: "r = (nacks1, s2)" by (cases r)
        note pw = Inr [unfolded r]
        show ?thesis
        proof (cases "tick dut s2")
          case (Inl e)
          with lt inb pw "1.prems" eq show ?thesis by simp
        next
          case t: (Inr s3)
          from lt inb pw t "1.prems" eq
          have rec: "burst_write_post dut ln inc buf (stbcnt + 1)
                  (if o_wb_ack s3 then nacks1 + 1 else nacks1)
                  (s3\<lparr>i_wb_addr := i_wb_addr s3 + word_of_int inc\<rparr>) = Inr (nacks', s')"
            by simp
          have ih: "ctl_frame (s3\<lparr>i_wb_addr := i_wb_addr s3 + word_of_int inc\<rparr>) s'"
            by (rule "1.IH" [OF lt inb pw refl t rec])
          from post_wait_stalled_frame [OF pw] ctl_frame_tick [OF t] ih
          show ?thesis by (auto intro: ctl_frame_trans)
        qed
      qed
    qed
  qed
qed

lemma burst_write_acks_trace:
  "burst_write_acks dut ln nacks errcount s = Inr (nacks', errcount', s') \<Longrightarrow>
     ctl_frame s s'
     \<and> (\<exists>ticks. m_trace s' = m_trace s @ ticks
           \<and> (\<forall>p \<in> set ticks. p_cyc p = i_wb_cyc s \<and> p_data_stb p = i_wb_data_stb s
                  \<and> p_ctrl_stb p = i_wb_ctrl_stb s \<and> p_we p = i_wb_we s)
           \<and> (nacks < ln \<and> errcount < BOMBCOUNT \<longrightarrow> ticks \<noteq> []))"
proof (induction dut ln nacks errcount s rule: burst_write_acks.induct)
  case (1 dut ln nacks errcount s)
  note eq = burst_write_acks.simps [of dut ln nacks errcount s]
  show ?case
  proof (cases "nacks < ln \<and> errcount < BOMBCOUNT")
    case False
    with "1.prems" eq show ?thesis by (auto split: if_splits)
  next
    case True
    then have lt: "nacks < ln" and bud: "errcount < BOMBCOUNT" by simp_all
    show ?thesis
    proof (cases "tick dut s")
      case (Inl e)
      with lt bud "1.prems" eq show ?thesis by simp
    next
      case t: (Inr s1)
      have fr1: "ctl_frame s s1" by (rule ctl_frame_tick [OF t])
      have tr1: "m_trace s1 = m_trace s @ [request_pins s]" by (rule tick_trace [OF t])
      have rest: "ctl_frame s1 s'
         \<and> (\<exists>ticks. m_trace s' = m_trace s1 @ ticks
           \<and> (\<forall>p \<in> set ticks. p_cyc p = i_wb_cyc s1 \<and> p_data_stb p = i_wb_data_stb s1
                  \<and> p_ctrl_stb p = i_wb_ctrl_stb s1 \<and> p_we p = i_wb_we s1))"
      proof (cases "o_wb_ack s1")
        case True
        with lt bud t "1.prems" eq
        have "burst_write_acks dut ln (nacks + 1) 0 s1 = Inr (nacks', errcount', s')" by simp
        from "1.IH"(1) [OF lt bud t True this] show ?thesis by blast
      next
        case False
        with lt bud t "1.prems" eq
        have "burst_write_acks dut ln nacks (errcount + 1) s1 = Inr (nacks', errcount', s')"
          by simp
        from "1.IH"(2) [OF lt bud t False this] show ?thesis by blast
      qed
      then obtain ticks where fr2: "ctl_frame s1 s'"
        and tr2: "m_trace s' = m_trace s1 @ ticks"
        and pins: "\<forall>p \<in> set ticks. p_cyc p = i_wb_cyc s1 \<and> p_data_stb p = i_wb_data_stb s1
                  \<and> p_ctrl_stb p = i_wb_ctrl_stb s1 \<and> p_we p = i_wb_we s1"
        by blast
      have "m_trace s' = m_trace s @ (request_pins s # ticks)"
        by (simp add: tr1 tr2)
      moreover have "\<forall>p \<in> set (request_pins s # ticks).
            p_cyc p = i_wb_cyc s \<and> p_data_stb p = i_wb_data_stb s
            \<and> p_ctrl_stb p = i_wb_ctrl_stb s \<and> p_we p = i_wb_we s"
        using pins fr1 by (simp add: ctl_frame_def request_pins_def)
      moreover have "ctl_frame s s'" by (rule ctl_frame_trans [OF fr1 fr2])
      ultimately show ?thesis by blast
    qed
  qed
qed

subsection \<open>C10: the burst write keeps strobing while it waits for acknowledges\<close>

text \<open>
  C10. In the burst write, after all \<open>ln\<close> words have been posted, the data strobe is
  set again and the wait for the outstanding acknowledges begins. Every tick of that wait
  presents the core with the cycle line, the data strobe and write-enable asserted, and
  the strobe is still asserted when the bus is released. When acknowledges are still
  outstanding after the posting loop (\<open>nacks < ln\<close>) the wait has at least one such
  tick: the core is presented with strobes beyond the \<open>ln\<close> posted words.
\<close>

theorem wb_write_burst_strobes_while_acks_lag:
  assumes "wb_write_burst dut a ln buf inc s = Some (Inr s')"
  shows "\<exists>nacks s2 nacks' errcount s3 ticks.
           burst_write_post dut ln inc buf 0 0
               (s\<lparr>i_wb_cyc := True, i_wb_data_stb := True, i_wb_ctrl_stb := False,
                  i_wb_we := True, i_wb_addr := drop_bit 2 a\<rparr>) = Inr (nacks, s2)
           \<and> burst_write_acks dut ln nacks 0
               (s2\<lparr>i_wb_data_stb := True, i_wb_ctrl_stb := False\<rparr>)
               = Inr (nacks', errcount, s3)
           \<and> m_trace s3 = m_trace s2 @ ticks
           \<and> (\<forall>p \<in> set ticks. p_cyc p \<and> p_data_stb p \<and> \<not> p_ctrl_stb p \<and> p_we p)
           \<and> (nacks < ln \<longrightarrow> ticks \<noteq> [])
           \<and> i_wb_cyc s3 \<and> i_wb_data_stb s3
           \<and> tick_assert_drain dut (write_release errcount s3) = Some (Inr s')"
proof -
  let ?s1 = "s\<lparr>i_wb_cyc := True, i_wb_data_stb := True, i_wb_ctrl_stb := False,
                i_wb_we := True, i_wb_addr := drop_bit 2 a\<rparr>"
  from assms obtain nacks s2 where
    post: "burst_write_post dut ln inc buf 0 0 ?s1 = Inr (nacks, s2)"
    by (auto simp: wb_write_burst_def Let_def split: sum.splits)
  let ?s2 = "s2\<lparr>i_wb_data_stb := True, i_wb_ctrl_stb := False\<rparr>"
  from assms post obtain nacks' errcount s3 where
    acks: "burst_write_acks dut ln nacks 0 ?s2 = Inr (nacks', errcount, s3)"
    and fin: "tick_assert_drain dut (write_release errcount s3) = Some (Inr s')"
    by (auto simp: wb_write_burst_def Let_def split: sum.splits)
  from burst_write_post_frame [OF post]
  have pins2: "i_wb_cyc s2" "i_wb_we s2"
    by (simp_all add: ctl_frame_def)
  from burst_write_acks_trace [OF acks] obtain ticks where
    fr: "ctl_frame ?s2 s3"
    and tr: "m_trace s3 = m_trace ?s2 @ ticks"
    and pins: "\<forall>p \<in> set ticks. p_cyc p = i_wb_cyc ?s2 \<and> p_data_stb p = i_wb_data_stb ?s2
                  \<and> p_ctrl_stb p = i_wb_ctrl_stb ?s2 \<and> p_we p = i_wb_we ?s2"
    and ne: "nacks < ln \<and> (0 :: int) < BOMBCOUNT \<longrightarrow> ticks \<noteq> []"
    by blast
  from tr have tr': "m_trace s3 = m_trace s2 @ ticks" by simp
  from pins pins2 have pins': "\<forall>p \<in> set ticks. p_cyc p \<and> p_data_stb p \<and> \<not> p_ctrl_stb p \<and> p_we p"
    by simp
  from ne have ne': "nacks < ln \<longrightarrow> ticks \<noteq> []" by (simp add: BOMBCOUNT_def)
  from fr pins2 have pins3: "i_wb_cyc s3" "i_wb_data_stb s3"
    by (simp_all add: ctl_frame_def)
  from post acks tr' pins' ne' pins3 fin show ?thesis by blast
qed


theorem wb_write_burst_strobes_while_acks_lag_witness:
  "wb_write_burst slow_core 0 1 [5] 1 (new_tb False) =
     Some (Inr ((new_tb False)\<lparr>i_wb_we := True, i_wb_addr := 1, i_wb_data := 5,
        m_tickcount := 3,
        m_trace := [\<lparr>p_cyc = True, p_data_stb = True, p_ctrl_stb = False,
                      p_we = True, p_addr = 0, p_data = 5\<rparr>,
                    \<lparr>p_cyc = True, p_data_stb = True, p_ctrl_stb = False,
                      p_we = True, p_addr = 1, p_data = 5\<rparr>,
                    \<lparr>p_cyc = False, p_data_stb = False, p_ctrl_stb = False,
                      p_we = True, p_addr = 1, p_data = 5\<rparr>]\<rparr>))
   \<and> (\<exists>s2 nacks' errcount s3 ticks.
         burst_write_post slow_core 1 1 [5] 0 0
             ((new_tb False)\<lparr>i_wb_cyc := True, i_wb_data_stb := True, i_wb_ctrl_stb := False,
                i_wb_we := True, i_wb_addr := drop_bit 2 0\<rparr>) = Inr (0, s2)
         \<and> burst_write_acks slow_core 1 0 0
             (s2\<lparr>i_wb_data_stb := True, i_wb_ctrl_stb := False\<rparr>)
             = Inr (nacks', errcount, s3)
         \<and> m_trace s3 = m_trace s2 @ ticks
         \<and> ticks \<noteq> []
         \<and> (\<forall>p \<in> set ticks. p_cyc p \<and> p_data_stb p \<and> \<not> p_ctrl_stb p \<and> p_we p))"
proof -
  have run: "wb_write_burst slow_core 0 1 [5] 1 (new_tb False) =
     Some (Inr ((new_tb False)\<lparr>i_wb_we := True, i_wb_addr := 1, i_wb_data := 5,
        m_tickcount := 3,
        m_trace := [\<lparr>p_cyc = True, p_data_stb = True, p_ctrl_stb = False,
                      p_we = True, p_addr = 0, p_data = 5\<rparr>,
                    \<lparr>p_cyc = True, p_data_stb = True, p_ctrl_stb = False,
                      p_we = True, p_addr = 1, p_data = 5\<rparr>,
                    \<lparr>p_cyc = False, p_data_stb = False, p_ctrl_stb = False,
                      p_we = True, p_addr = 1, p_data = 5\<rparr>]\<rparr>))"
    by code_simp
  from wb_write_burst_strobes_while_acks_lag [OF run] obtain nacks s2 nacks' errcount s3 ticks
    where post: "burst_write_post slow_core 1 1 [5] 0 0
             ((new_tb False)\<lparr>i_wb_cyc := True, i_wb_data_stb := True, i_wb_ctrl_stb := False,
                i_wb_we := True, i_wb_addr := drop_bit 2 0\<rparr>) = Inr (nacks, s2)"
      and acks: "burst_write_acks slow_core 1 nacks 0
             (s2\<lparr>i_wb_data_stb := True, i_wb_ctrl_stb := False\<rparr>)
             = Inr (nacks', errcount, s3)"
      and tr: "m_trace s3 = m_trace s2 @ ticks"
      and pins: "\<forall>p \<in> set ticks. p_cyc p \<and> p_data_stb p \<and> \<not> p_ctrl_stb p \<and> p_we p"
      and ne: "nacks < 1 \<longrightarrow> ticks \<noteq> []"
    by blast
  have "case burst_write_post slow_core 1 1 [5] 0 0
             ((new_tb False)\<lparr>i_wb_cyc := True, i_wb_data_stb := True, i_wb_ctrl_stb := False,
                i_wb_we := True, i_wb_addr := drop_bit 2 0\<rparr>) of
          Inl e \<Rightarrow> False | Inr (n, s2') \<Rightarrow> n = 0"
    by code_simp
  with post have n0: "nacks = 0" by simp
  from run post acks tr pins ne n0 show ?thesis by blast
qed

subsection \<open>The fault flag and the derived members through every operation\<close>

lemma ctl_frame_flag: "ctl_frame s s' \<Longrightarrow> m_bomb s' = m_bomb s \<and> wbflash_tb.more s' = wbflash_tb.more s"
  by (simp add: ctl_frame_def)

lemma tick_assert_drain_frame:
  assumes "tick_assert_drain dut s = Some (Inr s')"
  shows "m_bomb s' = m_bomb s \<and> wbflash_tb.more s' = wbflash_tb.more s"
proof -
  from tick_assert_drain_props [OF assms] obtain s1 where
    t: "tick dut s = Inr s1" and d: "drain_stall dut s1 = Some (Inr s')" by blast
  from ctl_frame_tick [OF t] drain_stall_props(5,6) [OF d] show ?thesis
    by (simp add: ctl_frame_def)
qed

lemma read_request_frame:
  assumes "read_request dut ctrl a s = Inr (errcount, s4)"
  shows "m_bomb s4 = m_bomb s \<and> wbflash_tb.more s4 = wbflash_tb.more s
         \<and> (errcount \<le> BOMBCOUNT \<longrightarrow> o_wb_ack s4)"
proof -
  let ?s1 = "s\<lparr>i_wb_cyc := True, i_wb_data_stb := \<not> ctrl, i_wb_ctrl_stb := ctrl,
                i_wb_we := False, i_wb_addr := drop_bit 2 a\<rparr>"
  from assms obtain e1 s2 s3 where
    w: "(if o_wb_stall ?s1 then wait_while_stalled dut 0 ?s1 else Inr (0, ?s1)) = Inr (e1, s2)"
    and t: "tick dut s2 = Inr s3"
    and k: "wait_for_ack dut e1 (s3\<lparr>i_wb_data_stb := False, i_wb_ctrl_stb := False\<rparr>)
              = Inr (errcount, s4)"
    by (auto simp: read_request_def Let_def split: sum.splits)
  from w have f1: "ctl_frame ?s1 s2"
    by (auto split: if_splits dest: wait_while_stalled_frame)
  from ctl_frame_tick [OF t] have f2: "ctl_frame s2 s3" .
  from wait_for_ack_frame [OF k]
  have f3: "ctl_frame (s3\<lparr>i_wb_data_stb := False, i_wb_ctrl_stb := False\<rparr>) s4"
    and ack: "errcount \<le> BOMBCOUNT \<longrightarrow> o_wb_ack s4" by simp_all
  from f1 f2 f3 ack show ?thesis by (simp add: ctl_frame_def)
qed

lemma single_read_flag:
  assumes "single_read dut ctrl a s = Some (Inr (r, s'))"
  shows "m_bomb s' = (m_bomb s \<or> read_timed_out dut ctrl a s)
         \<and> wbflash_tb.more s' = wbflash_tb.more s"
proof -
  from assms obtain errcount s4 where
    rq: "read_request dut ctrl a s = Inr (errcount, s4)"
    and tad: "tick_assert_drain dut (read_release errcount s4) = Some (Inr s')"
    by (auto simp: single_read_def Let_def split: sum.splits option.splits)
  from read_request_frame [OF rq]
  have f: "m_bomb s4 = m_bomb s" "wbflash_tb.more s4 = wbflash_tb.more s"
    and ack: "errcount \<le> BOMBCOUNT \<longrightarrow> o_wb_ack s4" by simp_all
  have rel: "m_bomb (read_release errcount s4) = (m_bomb s4 \<or> BOMBCOUNT \<le> errcount)"
    using ack by (auto simp: read_release_def Let_def)
  from tick_assert_drain_frame [OF tad] rel f rq show ?thesis
    by (simp add: read_timed_out_def)
qed

lemma write_request_frame:
  assumes "write_request dut ctrl a v s = Inr (errcount, s5)"
  shows "m_bomb s5 = m_bomb s \<and> wbflash_tb.more s5 = wbflash_tb.more s"
proof -
  let ?s1 = "s\<lparr>i_wb_cyc := True, i_wb_data_stb := \<not> ctrl, i_wb_ctrl_stb := ctrl,
                i_wb_we := True, i_wb_addr := drop_bit 2 a, i_wb_data := v\<rparr>"
  from assms obtain e1 s2 s3 s4 where
    w: "(if o_wb_stall ?s1 then wait_while_stalled dut 0 ?s1 else Inr (0, ?s1)) = Inr (e1, s2)"
    and t: "tick dut s2 = Inr s3"
    and k: "wait_for_ack dut e1 (s3\<lparr>i_wb_data_stb := False, i_wb_ctrl_stb := False\<rparr>)
              = Inr (errcount, s4)"
    and t2: "tick dut s4 = Inr s5"
    by (auto simp: write_request_def Let_def split: sum.splits)
  from w have f1: "ctl_frame ?s1 s2"
    by (auto split: if_splits dest: wait_while_stalled_frame)
  from ctl_frame_tick [OF t] have f2: "ctl_frame s2 s3" .
  from wait_for_ack_frame [OF k]
  have f3: "ctl_frame (s3\<lparr>i_wb_data_stb := False, i_wb_ctrl_stb := False\<rparr>) s4" by simp
  from ctl_frame_tick [OF t2] have f4: "ctl_frame s4 s5" .
  from f1 f2 f3 f4 show ?thesis by (simp add: ctl_frame_def)
qed

lemma write_release_flag:
  "m_bomb (write_release errcount s) = (m_bomb s \<or> BOMBCOUNT \<le> errcount)"
  "wbflash_tb.more (write_release errcount s) = wbflash_tb.more s"
  by (auto simp: write_release_def Let_def)

lemma wb_ctrl_write_flag:
  assumes "wb_ctrl_write dut a v s = Some (Inr s')"
  shows "m_bomb s' = (m_bomb s \<or> write_timed_out dut True a v s)
         \<and> wbflash_tb.more s' = wbflash_tb.more s"
proof -
  from assms obtain errcount s5 where
    rq: "write_request dut True a v s = Inr (errcount, s5)"
    and tad: "tick_assert_drain dut (write_release errcount s5) = Some (Inr s')"
    by (auto simp: wb_ctrl_write_def split: sum.splits)
  from tick_assert_drain_frame [OF tad] write_request_frame [OF rq] rq show ?thesis
    by (simp add: write_timed_out_def write_release_flag)
qed

lemma wb_write_flag:
  assumes "wb_write dut a v s = Some (Inr s')"
  shows "m_bomb s' = (m_bomb s \<or> write_timed_out dut False a v s)
         \<and> wbflash_tb.more s' = wbflash_tb.more s"
proof -
  from assms obtain errcount s5 where
    rq: "write_request dut False a v s = Inr (errcount, s5)"
    and tad: "tick_assert_drain dut (write_release errcount s5) = Some (Inr s')"
    by (auto simp: wb_write_def split: sum.splits option.splits if_splits)
  from tick_assert_drain_frame [OF tad] write_request_frame [OF rq] rq show ?thesis
    by (simp add: write_timed_out_def write_release_flag)
qed

lemma wb_write_burst_flag:
  assumes "wb_write_burst dut a ln buf inc s = Some (Inr s')"
  shows "m_bomb s' = (m_bomb s \<or> burst_write_timed_out dut a ln buf inc s)
         \<and> wbflash_tb.more s' = wbflash_tb.more s"
proof -
  let ?s1 = "s\<lparr>i_wb_cyc := True, i_wb_data_stb := True, i_wb_ctrl_stb := False,
                i_wb_we := True, i_wb_addr := drop_bit 2 a\<rparr>"
  from assms obtain nacks s2 where
    post: "burst_write_post dut ln inc buf 0 0 ?s1 = Inr (nacks, s2)"
    by (auto simp: wb_write_burst_def Let_def split: sum.splits)
  let ?s2 = "s2\<lparr>i_wb_data_stb := True, i_wb_ctrl_stb := False\<rparr>"
  from assms post obtain nacks' errcount s3 where
    acks: "burst_write_acks dut ln nacks 0 ?s2 = Inr (nacks', errcount, s3)"
    and tad: "tick_assert_drain dut (write_release errcount s3) = Some (Inr s')"
    by (auto simp: wb_write_burst_def Let_def split: sum.splits)
  from burst_write_post_frame [OF post] have f1: "ctl_frame ?s1 s2" .
  from burst_write_acks_trace [OF acks] have f2: "ctl_frame ?s2 s3" by simp
  from f1 f2 have "m_bomb s3 = m_bomb s" "wbflash_tb.more s3 = wbflash_tb.more s"
    by (simp_all add: ctl_frame_def)
  with tick_assert_drain_frame [OF tad] post acks show ?thesis
    by (simp add: burst_write_timed_out_def write_release_flag)
qed

lemma burst_read_request_frame:
  "burst_read_request dut len inc cnt rdidx errcount buf s = Inr (rdidx', errcount', buf', s')
     \<Longrightarrow> ctl_frame s s'"
proof (induction dut len inc cnt rdidx errcount buf s rule: burst_read_request.induct)
  case (1 dut len inc cnt rdidx errcount buf s)
  note eq = burst_read_request.simps [of dut len inc cnt rdidx errcount buf s]
  show ?case
  proof (cases "tick dut s")
    case (Inl e)
    with "1.prems" eq show ?thesis by (simp add: Let_def)
  next
    case t: (Inr s1)
    define st :: int where "st = (if o_wb_stall s then 1 else 0)"
    define s2 where "s2 = s1\<lparr>i_wb_addr := i_wb_addr s1 + word_of_int (inc AND (st XOR 1))\<rparr>"
    define cnt' where "cnt' = cnt + (st XOR 1)"
    have f1: "ctl_frame s s2"
      using ctl_frame_tick [OF t] by (simp add: s2_def)
    have eq': "burst_read_request dut len inc cnt rdidx errcount buf s =
       (case (if o_wb_ack s2 then store_word buf rdidx (o_wb_data s2)
              else Inr (rdidx, buf)) of
          Inl e \<Rightarrow> Inl e
        | Inr (rdidx', buf') \<Rightarrow>
            if cnt' < len
            then (if errcount < BOMBCOUNT * len
                  then burst_read_request dut len inc cnt' rdidx' (errcount + 1) buf' s2
                  else Inr (rdidx', errcount + 1, buf', s2))
            else Inr (rdidx', errcount, buf', s2))"
      unfolding s2_def st_def cnt'_def using eq t by (simp add: Let_def)
    show ?thesis
    proof (cases "if o_wb_ack s2 then store_word buf rdidx (o_wb_data s2) else Inr (rdidx, buf)")
      case (Inl e)
      with "1.prems" eq' show ?thesis by simp
    next
      case (Inr r)
      obtain rdidx1 buf1 where r: "r = (rdidx1, buf1)" by (cases r)
      note st = Inr [unfolded r]
      show ?thesis
      proof (cases "cnt' < len \<and> errcount < BOMBCOUNT * len")
        case False
        with st "1.prems" eq' have "s' = s2"
          by (auto split: if_splits)
        with f1 show ?thesis by simp
      next
        case True
        with st "1.prems" eq'
        have rec: "burst_read_request dut len inc cnt' rdidx1 (errcount + 1) buf1 s2
                     = Inr (rdidx', errcount', buf', s')"
          by simp
        have "ctl_frame s2 s'"
          using "1.IH" [OF st_def t s2_def cnt'_def st refl _ _ rec] True by simp
        with f1 show ?thesis by (rule ctl_frame_trans)
      qed
    qed
  qed
qed

lemma burst_read_collect_frame:
  "burst_read_collect dut len rdidx errcount buf s = Inr (rdidx', errcount', buf', s')
     \<Longrightarrow> ctl_frame s s'"
proof (induction dut len rdidx errcount buf s rule: burst_read_collect.induct)
  case (1 dut len rdidx errcount buf s)
  note eq = burst_read_collect.simps [of dut len rdidx errcount buf s]
  show ?case
  proof (cases "int rdidx < len \<and> errcount < BOMBCOUNT * len")
    case False
    with "1.prems" eq show ?thesis by (auto split: if_splits)
  next
    case True
    then have c1: "int rdidx < len" and c2: "errcount < BOMBCOUNT * len" by simp_all
    show ?thesis
    proof (cases "tick dut s")
      case (Inl e)
      with c1 c2 "1.prems" eq show ?thesis by simp
    next
      case t: (Inr s1)
      show ?thesis
      proof (cases "if o_wb_ack s1 then store_word buf rdidx (o_wb_data s1) else Inr (rdidx, buf)")
        case (Inl e)
        with c1 c2 t "1.prems" eq show ?thesis by simp
      next
        case (Inr r)
        obtain rdidx1 buf1 where r: "r = (rdidx1, buf1)" by (cases r)
        note st = Inr [unfolded r]
        from c1 c2 t st "1.prems" eq
        have rec: "burst_read_collect dut len rdidx1 (errcount + 1) buf1 s1
                     = Inr (rdidx', errcount', buf', s')"
          by simp
        have "ctl_frame s1 s'"
          by (rule "1.IH" [OF c1 c2 t st refl rec])
        with ctl_frame_tick [OF t] show ?thesis by (rule ctl_frame_trans)
      qed
    qed
  qed
qed

lemma burst_read_transfer_frame:
  assumes "burst_read_transfer dut a len buf inc s = Inr (rdidx, errcount, buf2, s5)"
  shows "m_bomb s5 = m_bomb s \<and> wbflash_tb.more s5 = wbflash_tb.more s"
proof -
  let ?s3 = "s\<lparr>i_wb_cyc := True, i_wb_data_stb := True, i_wb_ctrl_stb := False,
                i_wb_we := False, i_wb_addr := drop_bit 2 a\<rparr>"
  from assms obtain rdidx1 errcount1 buf1 s4 where
    rq: "burst_read_request dut len inc 0 0 0 buf ?s3 = Inr (rdidx1, errcount1, buf1, s4)"
    and co: "burst_read_collect dut len rdidx1 errcount1 buf1
               (s4\<lparr>i_wb_data_stb := False, i_wb_ctrl_stb := False\<rparr>)
             = Inr (rdidx, errcount, buf2, s5)"
    by (auto simp: burst_read_transfer_def Let_def split: sum.splits)
  from burst_read_request_frame [OF rq] burst_read_collect_frame [OF co]
  show ?thesis by (simp add: ctl_frame_def)
qed

lemma wb_read_burst_flag:
  assumes "wb_read_burst dut a len buf inc s = Inr (buf', s')"
  shows "m_bomb s' = (m_bomb s \<or> burst_read_timed_out dut a len buf inc s
                        \<or> burst_read_no_ack dut a len buf inc s)
         \<and> wbflash_tb.more s' = wbflash_tb.more s"
proof -
  let ?s1 = "s\<lparr>i_wb_cyc := False, i_wb_data_stb := True, i_wb_ctrl_stb := False\<rparr>"
  from assms obtain errcount0 s2 where
    w: "wait_while_stalled dut 0 ?s1 = Inr (errcount0, s2)"
    by (auto simp: wb_read_burst_def Let_def split: sum.splits)
  from wait_while_stalled_frame [OF w]
  have f1: "m_bomb s2 = m_bomb s" "wbflash_tb.more s2 = wbflash_tb.more s"
    by (simp_all add: ctl_frame_def)
  show ?thesis
  proof (cases "BOMBCOUNT \<le> errcount0")
    case True
    with assms w have "s' = s2\<lparr>m_bomb := True\<rparr>"
      by (simp add: wb_read_burst_def Let_def)
    with True w f1 show ?thesis
      by (simp add: burst_read_timed_out_def burst_read_no_ack_def)
  next
    case False
    with assms w obtain rdidx errcount buf2 s5 where
      tr: "burst_read_transfer dut a len buf inc s2 = Inr (rdidx, errcount, buf2, s5)"
      and t: "tick dut (burst_read_release len errcount s5) = Inr s'"
      by (auto simp: wb_read_burst_def Let_def split: sum.splits if_splits)
    from burst_read_transfer_frame [OF tr] f1
    have f2: "m_bomb s5 = m_bomb s" "wbflash_tb.more s5 = wbflash_tb.more s" by simp_all
    have rel: "m_bomb (burst_read_release len errcount s5)
                 = (m_bomb s5 \<or> BOMBCOUNT * len \<le> errcount \<or> \<not> o_wb_ack s5)"
      "wbflash_tb.more (burst_read_release len errcount s5) = wbflash_tb.more s5"
      by (auto simp: burst_read_release_def Let_def)
    from ctl_frame_tick [OF t] rel f2 False w tr show ?thesis
      by (auto simp: ctl_frame_def burst_read_timed_out_def burst_read_no_ack_def)
  qed
qed

lemma run_op_flag:
  assumes "run_op dut op s = Some (Inr s')"
  shows "(m_bomb s \<longrightarrow> m_bomb s') \<and> wbflash_tb.more s' = wbflash_tb.more s"
proof (cases op)
  case Tick
  with assms ctl_frame_tick [of dut s s'] show ?thesis by (simp add: ctl_frame_def)
next
  case (SetFlash f)
  with assms show ?thesis by auto
next
  case (WbRead a)
  with assms obtain r where "wb_read dut a s = Some (Inr (r, s'))"
    by (cases "wb_read dut a s") (auto simp: map_sum_def split: sum.splits)
  from single_read_flag [OF this [unfolded wb_read_def]] show ?thesis by simp
next
  case (WbCtrlRead a)
  with assms obtain r where "wb_ctrl_read dut a s = Some (Inr (r, s'))"
    by (cases "wb_ctrl_read dut a s") (auto simp: map_sum_def split: sum.splits)
  from single_read_flag [OF this [unfolded wb_ctrl_read_def]] show ?thesis by simp
next
  case (WbWrite a v)
  with assms wb_write_flag [of dut a v s s'] show ?thesis by simp
next
  case (WbCtrlWrite a v)
  with assms wb_ctrl_write_flag [of dut a v s s'] show ?thesis by simp
next
  case (WbReadBurst a len buf inc)
  with assms obtain buf' where "wb_read_burst dut a len buf inc s = Inr (buf', s')"
    by (auto simp: map_sum_def split: sum.splits)
  from wb_read_burst_flag [OF this] show ?thesis by simp
next
  case (WbWriteBurst a ln buf inc)
  with assms wb_write_burst_flag [of dut a ln buf inc s s'] show ?thesis by simp
qed

lemma run_ops_flag:
  "run_ops dut ops s = Some (Inr s') \<Longrightarrow>
     (m_bomb s \<longrightarrow> m_bomb s') \<and> wbflash_tb.more s' = wbflash_tb.more s"
proof (induction ops arbitrary: s)
  case Nil
  then show ?case by simp
next
  case (Cons op ops)
  from Cons.prems obtain s1 where
    o: "run_op dut op s = Some (Inr s1)" and r: "run_ops dut ops s1 = Some (Inr s')"
    by (auto split: option.splits sum.splits)
  from run_op_flag [OF o] Cons.IH [OF r] show ?case by simp
qed

subsection \<open>A read that times out\<close>

lemma tick_dead_core:
  "tick dead_core s = Inr (testb_tick dead_core s)"
  "\<not> o_wb_ack (testb_tick dead_core s)" "\<not> o_wb_stall (testb_tick dead_core s)"
  by (simp_all add: tick_def testb_tick_def dead_core_def Let_def)

lemma wait_for_ack_dead_core:
  "\<not> o_wb_ack s \<Longrightarrow> \<not> o_wb_stall s \<Longrightarrow> errcount \<le> BOMBCOUNT \<Longrightarrow>
     \<exists>s'. wait_for_ack dead_core errcount s = Inr (BOMBCOUNT + 1, s')
          \<and> \<not> o_wb_ack s' \<and> \<not> o_wb_stall s'"
proof (induction dead_core errcount s rule: wait_for_ack.induct)
  case (1 errcount s)
  note eq = wait_for_ack.simps [of dead_core errcount s]
  show ?case
  proof (cases "errcount < BOMBCOUNT")
    case False
    with "1.prems" eq show ?thesis by simp
  next
    case True
    with "1.prems" have c: "errcount < BOMBCOUNT \<and> \<not> o_wb_ack s" by simp
    from "1.hyps" [OF c tick_dead_core(1) tick_dead_core(2) tick_dead_core(3)] True
    obtain s' where "wait_for_ack dead_core (errcount + 1) (testb_tick dead_core s)
                       = Inr (BOMBCOUNT + 1, s')"
      and "\<not> o_wb_ack s'" "\<not> o_wb_stall s'" by auto
    with c eq show ?thesis by (simp add: tick_dead_core)
  qed
qed

lemma wb_read_dead_core_times_out:
  assumes "\<not> o_wb_stall s"
  shows "\<exists>r s'. wb_read dead_core a s = Some (Inr (r, s')) \<and> m_bomb s'
           \<and> read_timed_out dead_core False a s"
proof -
  let ?s1 = "s\<lparr>i_wb_cyc := True, i_wb_data_stb := True, i_wb_ctrl_stb := False,
                i_wb_we := False, i_wb_addr := drop_bit 2 a\<rparr>"
  let ?s3 = "(testb_tick dead_core ?s1)\<lparr>i_wb_data_stb := False, i_wb_ctrl_stb := False\<rparr>"
  have "\<not> o_wb_ack ?s3" "\<not> o_wb_stall ?s3"
    by (simp_all add: tick_dead_core)
  from wait_for_ack_dead_core [OF this, of 0] obtain s4 where
    w: "wait_for_ack dead_core 0 ?s3 = Inr (BOMBCOUNT + 1, s4)"
    and q: "\<not> o_wb_ack s4" "\<not> o_wb_stall s4"
    by (auto simp: BOMBCOUNT_def)
  have rq: "read_request dead_core False a s = Inr (BOMBCOUNT + 1, s4)"
    using assms w by (simp add: read_request_def Let_def tick_dead_core)
  let ?s5 = "read_release (BOMBCOUNT + 1) s4"
  have b: "m_bomb ?s5" by (simp add: read_release_def Let_def)
  have d: "drain_stall dead_core (testb_tick dead_core ?s5)
             = Some (Inr (testb_tick dead_core ?s5))"
    by (subst drain_stall.simps) (simp add: tick_dead_core)
  have tad: "tick_assert_drain dead_core ?s5 = Some (Inr (testb_tick dead_core ?s5))"
    by (simp add: tick_assert_drain_def tick_dead_core d)
  have "wb_read dead_core a s = Some (Inr (o_wb_data s4, testb_tick dead_core ?s5))"
    by (simp add: wb_read_def single_read_def rq tad Let_def)
  moreover have "m_bomb (testb_tick dead_core ?s5)" using b by simp
  moreover have "read_timed_out dead_core False a s"
    by (simp add: read_timed_out_def rq)
  ultimately show ?thesis by blast
qed

subsection \<open>C5: the stride of the burst read\<close>

text \<open>
  C5. The burst read should advance the driven address by \<open>inc\<close> on every tick on which
  stall was not asserted. The code adds \<open>inc & (s ^ 1)\<close>, which on such a tick is
  \<open>inc & 1\<close>: the lowest bit of \<open>inc\<close>. Here is the call
  \<open>wb_read(0, 2, buf, 2)\<close> on a core that never stalls and answers every request with
  its address: both requests go out at address 0 (the second should be at address 2),
  the buffer receives \<open>[0, 0]\<close>, and the address pins still hold 0 at the end.
\<close>

theorem wb_read_burst_stride_two_never_advances:
  "wb_read_burst echo_core 0 2 [7, 7] 2 (new_tb 0) =
     Inr ([0, 0],
       \<lparr>m_core = 2, i_wb_cyc = False, i_wb_data_stb = False, i_wb_ctrl_stb = False,
        i_wb_we = False, i_wb_addr = 0, i_wb_data = 0, o_wb_stall = False,
        o_wb_ack = False, o_wb_data = 0, m_tickcount = 3,
        m_trace =
          [\<lparr>p_cyc = True, p_data_stb = True, p_ctrl_stb = False, p_we = False,
             p_addr = 0, p_data = 0\<rparr>,
           \<lparr>p_cyc = True, p_data_stb = True, p_ctrl_stb = False, p_we = False,
             p_addr = 0, p_data = 0\<rparr>,
           \<lparr>p_cyc = False, p_data_stb = False, p_ctrl_stb = False, p_we = False,
             p_addr = 0, p_data = 0\<rparr>],
        m_ack_expected = False, m_bomb = False\<rparr>)"
  by code_simp


subsection \<open>C2: the fault flag\<close>




subsection \<open>C3: the accessor of the flash test benches\<close>

lemma derived_member_of_more:
  "wbflash_tb.more s' = wbflash_tb.more s \<Longrightarrow> qspi_m_bomb s' = qspi_m_bomb s"
  "wbflash_tb.more t' = wbflash_tb.more t \<Longrightarrow> spix_m_bomb t' = spix_m_bomb t"
  "wbflash_tb.more u' = wbflash_tb.more u \<Longrightarrow> dual_m_bomb u' = dual_m_bomb u"
  by (cases s, cases s', simp) (cases t, cases t', simp, cases u, cases u', simp)

text \<open>
  C3. In each of the three flash test benches the accessor \<open>bombed()\<close> that the
  scenario driver calls returns the derived class's own \<open>m_bomb\<close>. No constructor
  initialises that member: after construction \<open>bombed()\<close> returns whatever the
  storage held. No operation writes it: after any run of operations that returns,
  \<open>bombed()\<close> still returns that same value, whatever the operations did to the
  fault flag of the bus transactor, which the member shadows. So a timeout latched by a
  bus primitive never shows through \<open>bombed()\<close>.
\<close>

theorem derived_bombed_blind:
  "qspiflash_bombed (QSPIFLASH_TB obj1 core1) = qspi_m_bomb obj1
   \<and> (run_ops dut1 ops1 (QSPIFLASH_TB obj1 core1) = Some (Inr s1) \<longrightarrow>
        qspiflash_bombed s1 = qspi_m_bomb obj1)
   \<and> spixpress_bombed (SPIXPRESS_TB obj2 core2) = spix_m_bomb obj2
   \<and> (run_ops dut2 ops2 (SPIXPRESS_TB obj2 core2) = Some (Inr s2) \<longrightarrow>
        spixpress_bombed s2 = spix_m_bomb obj2)
   \<and> dualflexpress_bombed (DUALFLEXPRESS_TB obj3 core3) = dual_m_bomb obj3
   \<and> (run_ops dut3 ops3 (DUALFLEXPRESS_TB obj3 core3) = Some (Inr s3) \<longrightarrow>
        dualflexpress_bombed s3 = dual_m_bomb obj3)"
proof (intro conjI impI)
  show "qspiflash_bombed (QSPIFLASH_TB obj1 core1) = qspi_m_bomb obj1"
    by (simp add: qspiflash_bombed_def QSPIFLASH_TB_def WBFLASH_TB_def)
  show "spixpress_bombed (SPIXPRESS_TB obj2 core2) = spix_m_bomb obj2"
    by (simp add: spixpress_bombed_def SPIXPRESS_TB_def WBFLASH_TB_def)
  show "dualflexpress_bombed (DUALFLEXPRESS_TB obj3 core3) = dual_m_bomb obj3"
    by (simp add: dualflexpress_bombed_def DUALFLEXPRESS_TB_def WBFLASH_TB_def)
next
  assume "run_ops dut1 ops1 (QSPIFLASH_TB obj1 core1) = Some (Inr s1)"
  from run_ops_flag [OF this]
  have "wbflash_tb.more s1 = wbflash_tb.more (QSPIFLASH_TB obj1 core1)" by simp
  then have "qspi_m_bomb s1 = qspi_m_bomb (QSPIFLASH_TB obj1 core1)"
    by (rule derived_member_of_more)
  then show "qspiflash_bombed s1 = qspi_m_bomb obj1"
    by (simp add: qspiflash_bombed_def QSPIFLASH_TB_def WBFLASH_TB_def)
next
  assume "run_ops dut2 ops2 (SPIXPRESS_TB obj2 core2) = Some (Inr s2)"
  from run_ops_flag [OF this]
  have "wbflash_tb.more s2 = wbflash_tb.more (SPIXPRESS_TB obj2 core2)" by simp
  then have "spix_m_bomb s2 = spix_m_bomb (SPIXPRESS_TB obj2 core2)"
    by (rule derived_member_of_more)
  then show "spixpress_bombed s2 = spix_m_bomb obj2"
    by (simp add: spixpress_bombed_def SPIXPRESS_TB_def WBFLASH_TB_def)
next
  assume "run_ops dut3 ops3 (DUALFLEXPRESS_TB obj3 core3) = Some (Inr s3)"
  from run_ops_flag [OF this]
  have "wbflash_tb.more s3 = wbflash_tb.more (DUALFLEXPRESS_TB obj3 core3)" by simp
  then have "dual_m_bomb s3 = dual_m_bomb (DUALFLEXPRESS_TB obj3 core3)"
    by (rule derived_member_of_more)
  then show "dualflexpress_bombed s3 = dual_m_bomb obj3"
    by (simp add: dualflexpress_bombed_def DUALFLEXPRESS_TB_def WBFLASH_TB_def)
qed


theorem derived_bombed_blind_witness:
  "(\<exists>s'. run_ops dead_core [WbRead 0] (QSPIFLASH_TB (stale_qspiflash () False) ()) = Some (Inr s')
          \<and> m_bomb s' \<and> \<not> qspiflash_bombed s')
   \<and> qspiflash_bombed (QSPIFLASH_TB (stale_qspiflash () True) ())
   \<and> \<not> m_bomb (QSPIFLASH_TB (stale_qspiflash () True) ())
   \<and> (\<exists>s'. run_ops dead_core [WbRead 0] (SPIXPRESS_TB (stale_spixpress () False) ()) = Some (Inr s')
          \<and> m_bomb s' \<and> \<not> spixpress_bombed s')
   \<and> spixpress_bombed (SPIXPRESS_TB (stale_spixpress () True) ())
   \<and> \<not> m_bomb (SPIXPRESS_TB (stale_spixpress () True) ())
   \<and> (\<exists>s'. run_ops dead_core [WbRead 0] (DUALFLEXPRESS_TB (stale_dualflexpress () False) ()) = Some (Inr s')
          \<and> m_bomb s' \<and> \<not> dualflexpress_bombed s')
   \<and> dualflexpress_bombed (DUALFLEXPRESS_TB (stale_dualflexpress () True) ())
   \<and> \<not> m_bomb (DUALFLEXPRESS_TB (stale_dualflexpress () True) ())"
proof -
  have idle1: "\<not> o_wb_stall (QSPIFLASH_TB (stale_qspiflash () False) ())"
    by (simp add: QSPIFLASH_TB_def WBFLASH_TB_def stale_qspiflash_def)
  from wb_read_dead_core_times_out [OF idle1, of 0] obtain r1 t1 where
    "wb_read dead_core 0 (QSPIFLASH_TB (stale_qspiflash () False) ()) = Some (Inr (r1, t1))"
    and flag1: "m_bomb t1" by blast
  then have run1: "run_ops dead_core [WbRead 0] (QSPIFLASH_TB (stale_qspiflash () False) ()) = Some (Inr t1)"
    by simp
  have "qspiflash_bombed t1 = qspi_m_bomb (stale_qspiflash () False)"
    by (rule derived_bombed_blind [THEN conjunct2, THEN conjunct1, THEN mp, OF run1])
  then have blind1: "\<not> qspiflash_bombed t1"
    by (simp add: stale_qspiflash_def)
  have "qspiflash_bombed (QSPIFLASH_TB (stale_qspiflash () True) ()) = qspi_m_bomb (stale_qspiflash () True)"
    by (rule derived_bombed_blind [THEN conjunct1])
  then have garbage1: "qspiflash_bombed (QSPIFLASH_TB (stale_qspiflash () True) ())"
    by (simp add: stale_qspiflash_def)
  have clear1: "\<not> m_bomb (QSPIFLASH_TB (stale_qspiflash () True) ())"
    by (simp add: QSPIFLASH_TB_def WBFLASH_TB_def)
  have idle2: "\<not> o_wb_stall (SPIXPRESS_TB (stale_spixpress () False) ())"
    by (simp add: SPIXPRESS_TB_def WBFLASH_TB_def stale_spixpress_def)
  from wb_read_dead_core_times_out [OF idle2, of 0] obtain r2 t2 where
    "wb_read dead_core 0 (SPIXPRESS_TB (stale_spixpress () False) ()) = Some (Inr (r2, t2))"
    and flag2: "m_bomb t2" by blast
  then have run2: "run_ops dead_core [WbRead 0] (SPIXPRESS_TB (stale_spixpress () False) ()) = Some (Inr t2)"
    by simp
  have "spixpress_bombed t2 = spix_m_bomb (stale_spixpress () False)"
    by (rule derived_bombed_blind [THEN conjunct2, THEN conjunct2, THEN conjunct2, THEN conjunct1, THEN mp, OF run2])
  then have blind2: "\<not> spixpress_bombed t2"
    by (simp add: stale_spixpress_def)
  have "spixpress_bombed (SPIXPRESS_TB (stale_spixpress () True) ()) = spix_m_bomb (stale_spixpress () True)"
    by (rule derived_bombed_blind [THEN conjunct2, THEN conjunct2, THEN conjunct1])
  then have garbage2: "spixpress_bombed (SPIXPRESS_TB (stale_spixpress () True) ())"
    by (simp add: stale_spixpress_def)
  have clear2: "\<not> m_bomb (SPIXPRESS_TB (stale_spixpress () True) ())"
    by (simp add: SPIXPRESS_TB_def WBFLASH_TB_def)
  have idle3: "\<not> o_wb_stall (DUALFLEXPRESS_TB (stale_dualflexpress () False) ())"
    by (simp add: DUALFLEXPRESS_TB_def WBFLASH_TB_def stale_dualflexpress_def)
  from wb_read_dead_core_times_out [OF idle3, of 0] obtain r3 t3 where
    "wb_read dead_core 0 (DUALFLEXPRESS_TB (stale_dualflexpress () False) ()) = Some (Inr (r3, t3))"
    and flag3: "m_bomb t3" by blast
  then have run3: "run_ops dead_core [WbRead 0] (DUALFLEXPRESS_TB (stale_dualflexpress () False) ()) = Some (Inr t3)"
    by simp
  have "dualflexpress_bombed t3 = dual_m_bomb (stale_dualflexpress () False)"
    by (rule derived_bombed_blind [THEN conjunct2, THEN conjunct2, THEN conjunct2, THEN conjunct2, THEN conjunct2, THEN mp, OF run3])
  then have blind3: "\<not> dualflexpress_bombed t3"
    by (simp add: stale_dualflexpress_def)
  have "dualflexpress_bombed (DUALFLEXPRESS_TB (stale_dualflexpress () True) ()) = dual_m_bomb (stale_dualflexpress () True)"
    by (rule derived_bombed_blind [THEN conjunct2, THEN conjunct2, THEN conjunct2, THEN conjunct2, THEN conjunct1])
  then have garbage3: "dualflexpress_bombed (DUALFLEXPRESS_TB (stale_dualflexpress () True) ())"
    by (simp add: stale_dualflexpress_def)
  have clear3: "\<not> m_bomb (DUALFLEXPRESS_TB (stale_dualflexpress () True) ())"
    by (simp add: DUALFLEXPRESS_TB_def WBFLASH_TB_def)
  from run1 flag1 blind1 garbage1 clear1 run2 flag2 blind2 garbage2 clear2
    run3 flag3 blind3 garbage3 clear3
  show ?thesis by blast
qed

subsection \<open>The sequencer: events of the basic steps and of the wait\<close>

lemma events_cfg_write [simp]:
  "events (cfg_write v st) = events st @ [CfgWrite v]"
  "nreads (cfg_write v st) = nreads st"
  by (simp_all add: cfg_write_def)

lemma fl_tick_Inr:
  "fl_tick acks st = Inr st' \<Longrightarrow> events st' = events st @ [ClockTick] \<and> nreads st' = nreads st"
  by (auto simp: fl_tick_def split: if_splits)

lemma cfg_read_eq [simp]:
  "fst (cfg_read port st) = port (nreads st)"
  "events (snd (cfg_read port st)) = events st @ [CfgRead (port (nreads st))]"
  "nreads (snd (cfg_read port st)) = nreads st + 1"
  by (simp_all add: cfg_read_def)

lemma events_take_offline [simp]:
  "events (take_offline st) = events st @ offline_events"
  "nreads (take_offline st) = nreads st"
  by (simp_all add: take_offline_def offline_events_def)

lemma events_place_online [simp]:
  "events (place_online st) = events st @ online_events"
  "nreads (place_online st) = nreads st"
  by (simp_all add: place_online_def online_events_def Let_def)

lemma events_erase_frame [simp]:
  "events (erase_frame v a st) = events st @ erase_frame_events v a"
  "nreads (erase_frame v a st) = nreads st"
  by (simp_all add: erase_frame_def erase_frame_events_def Let_def)

lemma seq_state_eqI: "nreads s = nreads t \<Longrightarrow> events s = events t \<Longrightarrow> s = (t :: seq_state)"
  by simp

lemma flwait_poll_step:
  "flwait_poll port d st =
     (if busy (port (nreads st)) then flwait_poll port d (snd (cfg_read port (cfg_write d st)))
      else Some (snd (cfg_read port (cfg_write d st))))"
  by (subst flwait_poll.simps) (simp add: busy_def case_prod_beta)

lemma flwait_poll_ready:
  "(\<forall>j<n. busy (port (nreads st + j))) \<Longrightarrow> \<not> busy (port (nreads st + n)) \<Longrightarrow>
     \<exists>st'. flwait_poll port d st = Some st' \<and> nreads st' = nreads st + Suc n
       \<and> events st' = events st @ poll_events d (map port [nreads st ..< nreads st + Suc n])"
proof (induction n arbitrary: st)
  case 0
  then show ?case
    by (subst flwait_poll_step) (simp add: poll_events_def)
next
  case (Suc n)
  let ?st1 = "snd (cfg_read port (cfg_write d st))"
  from Suc.prems have b0: "busy (port (nreads st))" by auto
  have "\<forall>j<n. busy (port (nreads ?st1 + j))"
    using Suc.prems(1) by (auto simp: less_Suc_eq_0_disj)
  moreover have "\<not> busy (port (nreads ?st1 + n))"
    using Suc.prems(2) by simp
  ultimately obtain st' where r: "flwait_poll port d ?st1 = Some st'"
    and n: "nreads st' = nreads ?st1 + Suc n"
    and e: "events st' = events ?st1 @ poll_events d (map port [nreads ?st1 ..< nreads ?st1 + Suc n])"
    using Suc.IH [of ?st1] by blast
  have "[nreads st ..< nreads st + Suc (Suc n)]
          = nreads st # [nreads st + 1 ..< nreads st + 1 + Suc n]"
    by (simp add: upt_conv_Cons)
  with r n e b0 show ?case
    by (subst flwait_poll_step) (simp add: poll_events_def)
qed

lemma flwait_poll_returns:
  assumes "flwait_poll port d st = Some st'"
  shows "\<exists>n. (\<forall>j<n. busy (port (nreads st + j))) \<and> \<not> busy (port (nreads st + n))"
proof (rule flwait_poll.raw_induct [OF _ assms])
  fix poll :: "port \<Rightarrow> u32 \<Rightarrow> seq_state \<Rightarrow> seq_state option" and port d st st'
  assume ih: "\<And>port d st st'. poll port d st = Some st' \<Longrightarrow>
      \<exists>n. (\<forall>j<n. busy (port (nreads st + j))) \<and> \<not> busy (port (nreads st + n))"
    and eq: "(case cfg_read port (cfg_write d st) of
               (r, st') \<Rightarrow> if r AND 1 \<noteq> 0 then poll port d st' else Some st') = Some st'"
  show "\<exists>n. (\<forall>j<n. busy (port (nreads st + j))) \<and> \<not> busy (port (nreads st + n))"
  proof (cases "busy (port (nreads st))")
    case False
    then have "(\<forall>j<0. busy (port (nreads st + j))) \<and> \<not> busy (port (nreads st + 0))" by simp
    then show ?thesis by blast
  next
    case True
    with eq have "poll port d (snd (cfg_read port (cfg_write d st))) = Some st'"
      by (simp add: busy_def case_prod_beta)
    from ih [OF this] obtain n where
      a: "\<forall>j<n. busy (port (nreads st + 1 + j))" and b: "\<not> busy (port (nreads st + 1 + n))"
      by auto
    from a True have "\<forall>j<Suc n. busy (port (nreads st + j))"
      by (auto simp: less_Suc_eq_0_disj)
    with b show ?thesis by (intro exI [of _ "Suc n"]) simp
  qed
qed

lemma flwait_events:
  assumes "flwait v port st = Some st'"
  shows "\<exists>n. (\<forall>j<n. busy (port (nreads st + j))) \<and> \<not> busy (port (nreads st + n))
           \<and> nreads st' = nreads st + Suc n
           \<and> events st' = events st
                 @ wait_events (dummy v) (map port [nreads st ..< nreads st + Suc n])"
proof -
  from assms obtain st1 where
    p: "flwait_poll port (dummy v) (cfg_write F_RDSR st) = Some st1"
    and st': "st' = cfg_write F_END st1"
    by (auto simp: flwait_def)
  from flwait_poll_returns [OF p] obtain n where
    a: "\<forall>j<n. busy (port (nreads st + j))" and b: "\<not> busy (port (nreads st + n))"
    by auto
  from flwait_poll_ready [of n port "cfg_write F_RDSR st" "dummy v"] a b p
  have "nreads st1 = nreads st + Suc n"
    and "events st1 = events st @ [CfgWrite F_RDSR]
           @ poll_events (dummy v) (map port [nreads st ..< nreads st + Suc n])"
    by auto
  with a b st' show ?thesis by (auto simp: wait_events_def)
qed

lemma flwait_ready:
  assumes "\<forall>j<n. busy (port (nreads st + j))" and "\<not> busy (port (nreads st + n))"
  shows "\<exists>st'. flwait v port st = Some st' \<and> nreads st' = nreads st + Suc n
           \<and> events st' = events st
                 @ wait_events (dummy v) (map port [nreads st ..< nreads st + Suc n])"
proof -
  from flwait_poll_ready [of n port "cfg_write F_RDSR st" "dummy v"] assms
  obtain st1 where "flwait_poll port (dummy v) (cfg_write F_RDSR st) = Some st1"
    and "nreads st1 = nreads st + Suc n"
    and "events st1 = events st @ [CfgWrite F_RDSR]
           @ poll_events (dummy v) (map port [nreads st ..< nreads st + Suc n])"
    by auto
  then show ?thesis by (simp add: flwait_def wait_events_def)
qed

subsection \<open>The page arithmetic of \<open>flprogram\<close>\<close>

lemma PAGEOF_eq: "PAGEOF a = a div 256 * 256"
proof -
  have "NOT (mask 8) = push_bit 8 (- 1 :: int)" by simp
  then have "PAGEOF a = push_bit 8 (drop_bit 8 a)"
    unfolding PAGEOF_def by (intro bit_eqI) (auto simp: bit_simps)
  then show ?thesis by (simp add: push_bit_eq_mult drop_bit_eq_div)
qed

lemma PAGEOF_same_iff: "PAGEOF a = PAGEOF b \<longleftrightarrow> a div 256 = b div 256"
  by (simp add: PAGEOF_eq)

lemma PAGEOF_next: "PAGEOF (start + PGLENB) = (start div 256 + 1) * 256"
proof -
  have "(start + 256) div 256 = start div 256 + 1"
    using div_add_self2 [of 256 start] by simp
  then show ?thesis by (simp add: PAGEOF_eq PGLENB_def)
qed

lemma page_bounds: "a div 256 * 256 \<le> (a :: int)" "(a :: int) < a div 256 * 256 + 256"
proof -
  have "a = a div 256 * 256 + a mod 256" by simp
  moreover have "0 \<le> a mod 256" "a mod 256 < 256" by simp_all
  ultimately show "a div 256 * 256 \<le> a" "a < a div 256 * 256 + 256" by linarith+
qed

lemma page_eqI: "q * 256 \<le> a \<Longrightarrow> a < q * 256 + 256 \<Longrightarrow> a div 256 = (q :: int)"
  using page_bounds [of a] by linarith

lemma page_le: "(a :: int) \<le> b \<Longrightarrow> a div 256 \<le> b div 256"
  by (rule zdiv_mono1) simp_all

lemma page_splits_stop: "addr + ln \<le> start \<Longrightarrow> page_splits addr ln start = []"
  by (subst page_splits.simps) simp

lemma page_splits_last:
  assumes "start < addr + ln" and "(addr + ln - 1) div 256 = start div 256"
  shows "page_splits addr ln start = [(start, addr + ln - start)]"
proof -
  from assms page_bounds(2) [of "addr + ln - 1"]
  have "addr + ln \<le> (start div 256 + 1) * 256" by simp
  then have "page_splits addr ln (PAGEOF (start + PGLENB)) = []"
    by (simp add: page_splits_stop PAGEOF_next)
  with assms show ?thesis
    by (subst page_splits.simps) (simp add: PAGEOF_same_iff)
qed

lemma page_splits_more:
  assumes "start < addr + ln" and "(addr + ln - 1) div 256 \<noteq> start div 256"
  shows "page_splits addr ln start =
           (start, (start div 256 + 1) * 256 - start)
           # page_splits addr ln ((start div 256 + 1) * 256)"
    and "start div 256 < (addr + ln - 1) div 256"
    and "(start div 256 + 1) * 256 < addr + ln"
    and "((start div 256 + 1) * 256) div 256 = start div 256 + 1"
proof -
  from assms show "page_splits addr ln start =
           (start, (start div 256 + 1) * 256 - start)
           # page_splits addr ln ((start div 256 + 1) * 256)"
    by (subst page_splits.simps) (simp add: PAGEOF_same_iff PAGEOF_next)
  from assms page_le [of start "addr + ln - 1"]
  show lt: "start div 256 < (addr + ln - 1) div 256" by simp
  with page_bounds(1) [of "addr + ln - 1"]
  show "(start div 256 + 1) * 256 < addr + ln" by (simp add: algebra_simps)
  show "((start div 256 + 1) * 256) div 256 = start div 256 + 1" by simp
qed

lemma page_splits_length:
  "start < addr + ln \<Longrightarrow>
     int (length (page_splits addr ln start)) = (addr + ln - 1) div 256 - start div 256 + 1"
proof (induction addr ln start rule: page_splits.induct)
  case (1 addr ln start)
  show ?case
  proof (cases "(addr + ln - 1) div 256 = start div 256")
    case True
    with "1.prems" show ?thesis by (simp add: page_splits_last)
  next
    case False
    note m = page_splits_more [OF "1.prems" False]
    have "int (length (page_splits addr ln (PAGEOF (start + PGLENB))))
            = (addr + ln - 1) div 256 - PAGEOF (start + PGLENB) div 256 + 1"
      using m(3) by (intro "1.IH" [OF "1.prems"]) (simp add: PAGEOF_next)
    with m show ?thesis by (simp add: PAGEOF_next)
  qed
qed

lemma page_splits_chunks:
  "\<forall>c \<in> set (page_splits addr ln start).
      (case c of (a, n) \<Rightarrow> start \<le> a \<and> 1 \<le> n \<and> a + n \<le> addr + ln
         \<and> a div 256 = (a + n - 1) div 256)"
proof (induction addr ln start rule: page_splits.induct)
  case (1 addr ln start)
  show ?case
  proof (cases "start < addr + ln")
    case False
    then show ?thesis by (simp add: page_splits_stop)
  next
    case lt: True
    show ?thesis
    proof (cases "(addr + ln - 1) div 256 = start div 256")
      case True
      with lt have "start div 256 = (start + (addr + ln - start) - 1) div 256" by simp
      with lt True show ?thesis by (simp add: page_splits_last)
    next
      case False
      note m = page_splits_more [OF lt False]
      have ih: "\<forall>c \<in> set (page_splits addr ln ((start div 256 + 1) * 256)).
          (case c of (a, n) \<Rightarrow> (start div 256 + 1) * 256 \<le> a \<and> 1 \<le> n \<and> a + n \<le> addr + ln
             \<and> a div 256 = (a + n - 1) div 256)"
        using "1.IH" [OF lt] by (simp add: PAGEOF_next)
      have up: "start < (start div 256 + 1) * 256"
        using page_bounds(2) [of start] by (simp add: algebra_simps)
      have "((start div 256 + 1) * 256 - 1) div 256 = start div 256"
        by (rule page_eqI) simp_all
      with up m(3)
      have first: "start \<le> start \<and> 1 \<le> (start div 256 + 1) * 256 - start
          \<and> start + ((start div 256 + 1) * 256 - start) \<le> addr + ln
          \<and> start div 256 = (start + ((start div 256 + 1) * 256 - start) - 1) div 256"
        by simp
      from ih first up show ?thesis
        by (auto simp: m(1))
    qed
  qed
qed

lemma page_splits_ascending:
  "sorted_wrt (\<lambda>c c'. fst c + snd c \<le> fst c') (page_splits addr ln start)"
proof (induction addr ln start rule: page_splits.induct)
  case (1 addr ln start)
  show ?case
  proof (cases "start < addr + ln")
    case False
    then show ?thesis by (simp add: page_splits_stop)
  next
    case lt: True
    show ?thesis
    proof (cases "(addr + ln - 1) div 256 = start div 256")
      case True
      with lt show ?thesis by (simp add: page_splits_last)
    next
      case False
      note m = page_splits_more [OF lt False]
      have ih: "sorted_wrt (\<lambda>c c'. fst c + snd c \<le> fst c')
                  (page_splits addr ln ((start div 256 + 1) * 256))"
        using "1.IH" [OF lt] by (simp add: PAGEOF_next)
      from page_splits_chunks [of addr ln "(start div 256 + 1) * 256"]
      have "\<forall>c \<in> set (page_splits addr ln ((start div 256 + 1) * 256)).
              (start div 256 + 1) * 256 \<le> fst c"
        by auto
      with ih show ?thesis by (simp add: m(1))
    qed
  qed
qed

lemma page_splits_cover:
  "start < addr + ln \<Longrightarrow>
     fst (hd (page_splits addr ln start)) = start
     \<and> sum_list (map snd (page_splits addr ln start)) = addr + ln - start"
proof (induction addr ln start rule: page_splits.induct)
  case (1 addr ln start)
  show ?case
  proof (cases "(addr + ln - 1) div 256 = start div 256")
    case True
    with "1.prems" show ?thesis by (simp add: page_splits_last)
  next
    case False
    note m = page_splits_more [OF "1.prems" False]
    have "sum_list (map snd (page_splits addr ln ((start div 256 + 1) * 256)))
            = addr + ln - (start div 256 + 1) * 256"
      using "1.IH" [OF "1.prems"] m(3) by (simp add: PAGEOF_next)
    then show ?thesis by (simp add: m(1))
  qed
qed

lemma page_program_calls_append [simp]:
  "page_program_calls (xs @ ys) = page_program_calls xs @ page_program_calls ys"
  by (induction xs rule: page_program_calls.induct) simp_all

lemma page_program_calls_writes [simp]:
  "page_program_calls (map CfgWrite ws) = []"
  by (induction ws) simp_all

lemma page_program_calls_writes_comp [simp]:
  "page_program_calls (map (CfgWrite \<circ> f) ws) = []"
  by (induction ws) simp_all

lemma page_program_calls_polls [simp]:
  "page_program_calls (poll_events d rs) = []"
  by (induction rs) (simp_all add: poll_events_def)

lemma page_program_calls_wait [simp]:
  "page_program_calls (wait_events d rs) = []"
  by (simp add: wait_events_def)

lemma page_program_calls_fixed [simp]:
  "page_program_calls offline_events = []"
  "page_program_calls online_events = []"
  by (simp_all add: offline_events_def online_events_def)

lemma events_write_payload [simp]:
  "events (write_payload v bs st)
     = events st @ map CfgWrite (map (\<lambda>b. user_byte v (ucast b AND 0x0ff)) bs)"
  "nreads (write_payload v bs st) = nreads st"
  by (induction bs arbitrary: st) simp_all

lemma flwait_calls:
  "flwait v port st = Some st' \<Longrightarrow> page_program_calls (events st') = page_program_calls (events st)"
  by (drule flwait_events) auto

lemma int32_id: "- (2 ^ 31) \<le> x \<Longrightarrow> x < 2 ^ 31 \<Longrightarrow> int32 x = x"
  by (simp add: int32_def signed_take_bit_int_eq_self)

lemma flpage_program_calls:
  assumes "flpage_program v port acks a n buf st = Some (Inr st')"
  shows "page_program_calls (events st') = page_program_calls (events st) @ [(a, n)]"
proof -
  from assms obtain st1 st2 st4 st9 st10 where
    w1: "flwait v port (st\<lparr>events := events st @ [PageProgram a n]\<rparr>) = Some st1"
    and t1: "fl_tick acks st1 = Inr st2"
    and t2: "fl_tick acks (cfg_write F_END (cfg_write F_WREN (cfg_write F_END st2))) = Inr st4"
    and t3: "fl_tick acks
               (cfg_write F_END (write_payload v (take (nat n) buf)
                  (cfg_write (user_byte v (addr_byte a 0))
                    (cfg_write (user_byte v (addr_byte a 8))
                      (cfg_write (user_byte v (addr_byte a 16))
                        (cfg_write F_PP st4)))))) = Inr st9"
    and w2: "flwait v port st9 = Some st10"
    and t4: "fl_tick acks st10 = Inr st'"
    by (auto simp: flpage_program_def Let_def split: option.splits sum.splits if_splits)
  from flwait_calls [OF w1] flwait_calls [OF w2]
    fl_tick_Inr [OF t1] fl_tick_Inr [OF t2] fl_tick_Inr [OF t3] fl_tick_Inr [OF t4]
  show ?thesis by simp
qed

lemma flprogram_loop_done:
  assumes "0 \<le> addr" and "1 \<le> ln" and "addr + ln + 256 < 2 ^ 31" and "addr + ln \<le> start"
  shows "flprogram_loop v port acks addr ln buf start st = Some (Inr st)"
proof -
  from assms have "int32 (addr + ln) = addr + ln" by (intro int32_id) simp_all
  with assms(4) show ?thesis by (subst flprogram_loop.simps) simp
qed

lemma flprogram_loop_in_range:
  assumes "0 \<le> addr" and "1 \<le> ln" and "addr + ln + 256 < 2 ^ 31"
    and "addr \<le> start" and "start < addr + ln"
  shows "flprogram_loop v port acks addr ln buf start st =
     (if int (length buf) < start - addr then Some (Inl BufferOverrun)
      else (case flpage_program v port acks start
                   (if PAGEOF (addr + ln - 1) \<noteq> PAGEOF start
                    then PAGEOF (start + PGLENB) - start
                    else addr + ln - start)
                   (drop (nat (start - addr)) buf) st of
              None \<Rightarrow> None
            | Some (Inl e) \<Rightarrow> Some (Inl e)
            | Some (Inr st') \<Rightarrow>
                flprogram_loop v port acks addr ln buf (PAGEOF (start + PGLENB)) st'))"
proof -
  from assms have a: "int32 (addr + ln) = addr + ln" by (intro int32_id) simp_all
  from assms have b: "int32 (addr + ln - 1) = addr + ln - 1" by (intro int32_id) simp_all
  from assms have c: "int32 (start + PGLENB) = start + PGLENB"
    by (intro int32_id) (simp_all add: PGLENB_def)
  have "start div 256 * 256 \<le> start" "start < start div 256 * 256 + 256"
    by (rule page_bounds)+
  then have "0 < PAGEOF (start + PGLENB) - start" "PAGEOF (start + PGLENB) - start \<le> 256"
    unfolding PAGEOF_next by (simp_all add: algebra_simps)
  then have d: "int32 (PAGEOF (start + PGLENB) - start) = PAGEOF (start + PGLENB) - start"
    by (intro int32_id) simp_all
  from assms have e: "int32 (addr + ln - start) = addr + ln - start"
    by (intro int32_id) simp_all
  from assms have f: "int32 (start - addr) = start - addr" by (intro int32_id) simp_all
  from assms(4) have g: "\<not> start < addr" by simp
  show ?thesis
    apply (subst flprogram_loop.simps)
    unfolding a b c d e f Let_def
    using g assms(5) by simp
qed

lemma flprogram_loop_calls:
  assumes "0 \<le> addr" and "1 \<le> ln" and "addr + ln + 256 < 2 ^ 31" and "addr \<le> start"
    and "flprogram_loop v port acks addr ln buf start st = Some (Inr st')"
  shows "page_program_calls (events st')
           = page_program_calls (events st) @ page_splits addr ln start"
  using assms
proof (induction addr ln start arbitrary: st rule: page_splits.induct)
  case (1 addr ln start)
  show ?case
  proof (cases "start < addr + ln")
    case False
    then have "addr + ln \<le> start" by simp
    from flprogram_loop_done [OF "1.prems"(1,2,3) this] "1.prems"(5) False
    show ?thesis by (simp add: page_splits_stop)
  next
    case lt: True
    define wlen where "wlen = (if PAGEOF (addr + ln - 1) \<noteq> PAGEOF start
                                then PAGEOF (start + PGLENB) - start
                                else addr + ln - start)"
    note eq = flprogram_loop_in_range [OF "1.prems"(1,2,3,4) lt, of v port acks buf st]
    from "1.prems"(5) eq obtain st1 where
      pp: "flpage_program v port acks start wlen (drop (nat (start - addr)) buf) st
             = Some (Inr st1)"
      and rec: "flprogram_loop v port acks addr ln buf (PAGEOF (start + PGLENB)) st1
                  = Some (Inr st')"
      by (auto simp: wlen_def split: option.splits sum.splits if_splits)
    have "start < (start div 256 + 1) * 256"
      using page_bounds(2) [of start] by (simp add: algebra_simps)
    with "1.prems"(4) have up: "addr \<le> PAGEOF (start + PGLENB)"
      unfolding PAGEOF_next by linarith
    have "page_program_calls (events st')
            = page_program_calls (events st1) @ page_splits addr ln (PAGEOF (start + PGLENB))"
      by (rule "1.IH" [OF lt "1.prems"(1,2,3) up rec])
    moreover have "page_splits addr ln start
            = (start, wlen) # page_splits addr ln (PAGEOF (start + PGLENB))"
      using lt by (subst page_splits.simps) (simp add: wlen_def)
    ultimately show ?thesis
      using flpage_program_calls [OF pp] by simp
  qed
qed

lemma flprogram_calls:
  assumes "0 \<le> addr" and "1 \<le> ln" and "addr + ln + 256 < 2 ^ 31"
    and "flprogram v port acks addr ln buf st = Some (Inr st')"
  shows "page_program_calls (events st') = page_program_calls (events st) @ page_splits addr ln addr"
proof (cases v)
  case Single
  with assms(4) obtain st1 where
    l: "flprogram_loop Single port acks addr ln buf addr st = Some (Inr st1)"
    and w: "flwait Single port st1 = Some st'"
    by (auto split: option.splits sum.splits)
  from flprogram_loop_calls [OF assms(1,2,3) order_refl l] flwait_calls [OF w]
  show ?thesis by simp
next
  case Dual
  with assms(4) obtain st1 st2 where
    l: "flprogram_loop Dual port acks addr ln buf addr (take_offline st) = Some (Inr st1)"
    and w: "flwait Dual port st1 = Some st2"
    and st': "st' = place_online st2"
    by (auto split: option.splits sum.splits)
  from flprogram_loop_calls [OF assms(1,2,3) order_refl l] flwait_calls [OF w] st'
  show ?thesis by simp
qed

lemma flwait_total:
  assumes "eventually_ready port"
  shows "\<exists>st'. flwait v port st = Some st'"
proof -
  let ?P = "\<lambda>n. \<not> busy (port (nreads st + n))"
  from assms have ex: "\<exists>n. ?P n" by (simp add: eventually_ready_def)
  define n where "n = (LEAST n. ?P n)"
  have "?P n" unfolding n_def using ex by (rule LeastI_ex)
  moreover have "\<forall>j<n. busy (port (nreads st + j))"
    unfolding n_def using not_less_Least by blast
  ultimately show ?thesis using flwait_ready [of n port st v] by blast
qed

lemma fl_tick_quiet:
  "\<forall>k. \<not> acks k \<Longrightarrow> fl_tick acks st = Inr (st\<lparr>events := events st @ [ClockTick]\<rparr>)"
  by (simp add: fl_tick_def)

lemma flpage_program_total:
  assumes "eventually_ready port" and "\<forall>k. \<not> acks k" and "ln \<le> int (length buf)"
  shows "\<exists>st'. flpage_program v port acks a ln buf st = Some (Inr st')"
proof -
  note q = fl_tick_quiet [OF assms(2)]
  from flwait_total [OF assms(1)] obtain st1 where
    w1: "flwait v port (st\<lparr>events := events st @ [PageProgram a ln]\<rparr>) = Some st1" by blast
  define st4 where "st4 = (cfg_write F_END (cfg_write F_WREN (cfg_write F_END
            (st1\<lparr>events := events st1 @ [ClockTick]\<rparr>))))\<lparr>events :=
               events (cfg_write F_END (cfg_write F_WREN (cfg_write F_END
                 (st1\<lparr>events := events st1 @ [ClockTick]\<rparr>)))) @ [ClockTick]\<rparr>"
  define st8 where "st8 = cfg_write F_END (write_payload v (take (nat ln) buf)
                  (cfg_write (user_byte v (addr_byte a 0))
                    (cfg_write (user_byte v (addr_byte a 8))
                      (cfg_write (user_byte v (addr_byte a 16))
                        (cfg_write F_PP st4)))))"
  from flwait_total [OF assms(1)] obtain st10 where
    w2: "flwait v port (st8\<lparr>events := events st8 @ [ClockTick]\<rparr>) = Some st10" by blast
  from w1 w2 assms(3) show ?thesis
    unfolding flpage_program_def q Let_def st8_def st4_def by simp
qed

lemma flprogram_loop_total:
  assumes "eventually_ready port" and "\<forall>k. \<not> acks k" and "ln \<le> int (length buf)"
    and "0 \<le> addr" and "1 \<le> ln" and "addr + ln + 256 < 2 ^ 31" and "addr \<le> start"
  shows "\<exists>st'. flprogram_loop v port acks addr ln buf start st = Some (Inr st')"
  using assms
proof (induction addr ln start arbitrary: st rule: page_splits.induct)
  case (1 addr ln start)
  show ?case
  proof (cases "start < addr + ln")
    case False
    then have "addr + ln \<le> start" by simp
    from flprogram_loop_done [OF "1.prems"(4,5,6) this] show ?thesis by blast
  next
    case lt: True
    define wlen where "wlen = (if PAGEOF (addr + ln - 1) \<noteq> PAGEOF start
                                then PAGEOF (start + PGLENB) - start
                                else addr + ln - start)"
    note eq = flprogram_loop_in_range [OF "1.prems"(4,5,6,7) lt, of v port acks buf st]
    have "wlen \<le> addr + ln - start"
    proof (cases "(addr + ln - 1) div 256 = start div 256")
      case True
      then show ?thesis by (simp add: wlen_def PAGEOF_same_iff)
    next
      case False
      from page_splits_more(3) [OF lt False] False show ?thesis
        by (simp add: wlen_def PAGEOF_same_iff PAGEOF_next)
    qed
    with "1.prems"(3,7) have len: "wlen \<le> int (length (drop (nat (start - addr)) buf))"
      by simp
    from "1.prems"(3,7) lt have nov: "\<not> int (length buf) < start - addr" by simp
    from flpage_program_total [OF "1.prems"(1,2) len] obtain st1 where
      pp: "flpage_program v port acks start wlen (drop (nat (start - addr)) buf) st
             = Some (Inr st1)"
      by blast
    have "start < (start div 256 + 1) * 256"
      using page_bounds(2) [of start] by (simp add: algebra_simps)
    with "1.prems"(7) have up: "addr \<le> PAGEOF (start + PGLENB)"
      unfolding PAGEOF_next by linarith
    from "1.IH" [OF lt "1.prems"(1,2,3,4,5,6) up] obtain st' where
      "flprogram_loop v port acks addr ln buf (PAGEOF (start + PGLENB)) st1 = Some (Inr st')"
      by blast
    with pp nov show ?thesis unfolding eq wlen_def [symmetric] by simp
  qed
qed

lemma flprogram_total:
  assumes "eventually_ready port" and "\<forall>k. \<not> acks k" and "ln \<le> int (length buf)"
    and "0 \<le> addr" and "1 \<le> ln" and "addr + ln + 256 < 2 ^ 31"
  shows "\<exists>st'. flprogram v port acks addr ln buf st = Some (Inr st')"
proof (cases v)
  case Single
  from flprogram_loop_total [OF assms order_refl] obtain st1 where
    "flprogram_loop Single port acks addr ln buf addr st = Some (Inr st1)" by blast
  moreover from flwait_total [OF assms(1)] obtain st2 where
    "flwait Single port st1 = Some st2" by blast
  ultimately show ?thesis using Single by simp
next
  case Dual
  from flprogram_loop_total [OF assms order_refl] obtain st1 where
    "flprogram_loop Dual port acks addr ln buf addr (take_offline st) = Some (Inr st1)" by blast
  moreover from flwait_total [OF assms(1)] obtain st2 where
    "flwait Dual port st1 = Some st2" by blast
  ultimately show ?thesis using Dual by simp
qed

lemma user_byte_low:
  "user_byte v (b AND 0x0ff) AND 0x0ff = b AND 0x0ff"
proof (cases v)
  case Single
  then show ?thesis by (simp add: and.assoc)
next
  case Dual
  have "CFG_USERMODE AND (0x0ff :: u32) = 0" by (simp add: CFG_USERMODE_def)
  then show ?thesis using Dual
    by (simp add: bit.conj_disj_distrib2 and.assoc)
qed

subsection \<open>C4: \<open>flprogram\<close> splits at page boundaries\<close>

text \<open>
  C4, as claimed: for every request with \<open>addr >= 0\<close> and \<open>ln >= 1\<close>, \<open>flprogram\<close>
  makes exactly K + 1 calls of \<open>flpage_program\<close>. It does not at the upper end of the
  \<open>int\<close>s: the four bytes from \<open>0x7fffff00\<close> lie in one page, but after the single
  call \<open>start + PGLENB\<close> overflows, \<open>start\<close> becomes \<open>-2^31\<close>, the loop goes on and
  the second call is handed a pointer 256 bytes into the buffer of four.
\<close>

theorem flprogram_overflow_goes_on:
  "PAGEOF (int32 (0x7fffff00 + PGLENB)) = - 0x80000000
   \<and> flprogram Single ready_port no_acks 0x7fffff00 4 [1, 2, 3, 4] fresh_seq
       = Some (Inl BufferOverrun)"
  by code_simp

text \<open>
  C4, amended. For every request with \<open>addr >= 0\<close>, \<open>ln >= 1\<close> and
  \<open>addr + ln + 256 < 2^31\<close>: if \<open>flprogram\<close> returns, the calls of \<open>flpage_program\<close>
  it has made are exactly K + 1, where K is the number of page boundaries the byte range
  spans (the page of the last byte minus the page of the first); each call stays within
  one 256-byte page and within the range, is at least one byte long; the calls are in
  ascending address order without overlap, the first starts at \<open>addr\<close> and their
  lengths add up to \<open>ln\<close>. In particular a request whose last byte is in the page of
  \<open>addr\<close>, also when \<open>addr + ln\<close> is page-aligned, makes the single call
  \<open>(addr, ln)\<close>. And \<open>flprogram\<close> does return when the device is eventually ready,
  the core acknowledges on no tick of the sequencer and the buffer holds \<open>ln\<close> bytes.
\<close>

theorem flprogram_page_split:
  assumes "0 \<le> addr" and "1 \<le> ln" and "addr + ln + 256 < 2 ^ 31"
  shows "(flprogram v port acks addr ln buf st = Some (Inr st') \<longrightarrow>
           (\<exists>calls. page_program_calls (events st') = page_program_calls (events st) @ calls
              \<and> int (length calls) = ((addr + ln - 1) div 256 - addr div 256) + 1
              \<and> (\<forall>c \<in> set calls. addr \<le> fst c \<and> 1 \<le> snd c \<and> fst c + snd c \<le> addr + ln
                     \<and> fst c div 256 = (fst c + snd c - 1) div 256)
              \<and> sorted_wrt (\<lambda>c c'. fst c + snd c \<le> fst c') calls
              \<and> fst (hd calls) = addr
              \<and> sum_list (map snd calls) = ln
              \<and> ((addr + ln - 1) div 256 = addr div 256 \<longrightarrow> calls = [(addr, ln)])))
       \<and> (eventually_ready port \<and> (\<forall>k. \<not> acks k) \<and> ln \<le> int (length buf) \<longrightarrow>
            (\<exists>st''. flprogram v port acks addr ln buf st = Some (Inr st'')))"
proof (intro conjI impI)
  assume run: "flprogram v port acks addr ln buf st = Some (Inr st')"
  from assms have lt: "addr < addr + ln" by simp
  let ?calls = "page_splits addr ln addr"
  have "page_program_calls (events st') = page_program_calls (events st) @ ?calls"
    by (rule flprogram_calls [OF assms run])
  moreover have "int (length ?calls) = ((addr + ln - 1) div 256 - addr div 256) + 1"
    by (rule page_splits_length [OF lt])
  moreover have "\<forall>c \<in> set ?calls. addr \<le> fst c \<and> 1 \<le> snd c \<and> fst c + snd c \<le> addr + ln
                  \<and> fst c div 256 = (fst c + snd c - 1) div 256"
    using page_splits_chunks [of addr ln addr] by (auto simp: case_prod_beta)
  moreover have "sorted_wrt (\<lambda>c c'. fst c + snd c \<le> fst c') ?calls"
    by (rule page_splits_ascending)
  moreover have "fst (hd ?calls) = addr" "sum_list (map snd ?calls) = ln"
    using page_splits_cover [OF lt] by simp_all
  moreover have "(addr + ln - 1) div 256 = addr div 256 \<longrightarrow> ?calls = [(addr, ln)]"
    using page_splits_last [OF lt] by simp
  ultimately show "\<exists>calls. page_program_calls (events st') = page_program_calls (events st) @ calls
              \<and> int (length calls) = ((addr + ln - 1) div 256 - addr div 256) + 1
              \<and> (\<forall>c \<in> set calls. addr \<le> fst c \<and> 1 \<le> snd c \<and> fst c + snd c \<le> addr + ln
                     \<and> fst c div 256 = (fst c + snd c - 1) div 256)
              \<and> sorted_wrt (\<lambda>c c'. fst c + snd c \<le> fst c') calls
              \<and> fst (hd calls) = addr
              \<and> sum_list (map snd calls) = ln
              \<and> ((addr + ln - 1) div 256 = addr div 256 \<longrightarrow> calls = [(addr, ln)])"
    by blast
next
  assume "eventually_ready port \<and> (\<forall>k. \<not> acks k) \<and> ln \<le> int (length buf)"
  then show "\<exists>st''. flprogram v port acks addr ln buf st = Some (Inr st'')"
    using flprogram_total [OF _ _ _ assms] by blast
qed

theorem flprogram_page_split_witness:
  "(\<exists>st'. flprogram Single ready_port no_acks 250 10 [1, 2, 3, 4, 5, 6, 7, 8, 9, 10] fresh_seq
            = Some (Inr st')
         \<and> page_program_calls (events st') = [(250, 6), (256, 4)])
   \<and> (\<exists>st'. flprogram Dual ready_port no_acks 252 4 [1, 2, 3, 4] fresh_seq = Some (Inr st')
         \<and> page_program_calls (events st') = [(252, 4)])
   \<and> eventually_ready ready_port \<and> (\<forall>k. \<not> no_acks k)"
proof -
  have er: "eventually_ready ready_port"
    by (simp add: eventually_ready_def ready_port_def busy_def)
  have na: "\<forall>k. \<not> no_acks k" by (simp add: no_acks_def)
  have pos: "(0 :: int) \<le> 250" "(1 :: int) \<le> 10" "(250 :: int) + 10 + 256 < 2 ^ 31"
    "(0 :: int) \<le> 252" "(1 :: int) \<le> 4" "(252 :: int) + 4 + 256 < 2 ^ 31"
    by simp_all
  have len: "(10 :: int) \<le> int (length [1, 2, 3, 4, 5, 6, 7, 8, 9, 10 :: u8])"
    "(4 :: int) \<le> int (length [1, 2, 3, 4 :: u8])" by simp_all
  note s1 = flprogram_page_split [OF pos(1,2,3), where v = Single and port = ready_port
      and acks = no_acks and buf = "[1, 2, 3, 4, 5, 6, 7, 8, 9, 10]" and st = fresh_seq]
  note s2 = flprogram_page_split [OF pos(4,5,6), where v = Dual and port = ready_port
      and acks = no_acks and buf = "[1, 2, 3, 4]" and st = fresh_seq]
  from s1 [THEN conjunct2, THEN mp, OF conjI [OF er conjI [OF na len(1)]]] obtain st1 where
    r1: "flprogram Single ready_port no_acks 250 10 [1, 2, 3, 4, 5, 6, 7, 8, 9, 10] fresh_seq
           = Some (Inr st1)" by blast
  from s1 [where st' = st1, THEN conjunct1, THEN mp, OF r1] obtain calls1 where
    c1: "page_program_calls (events st1) = page_program_calls (events fresh_seq) @ calls1"
    by blast
  have "map_option (map_sum id (page_program_calls \<circ> events))
          (flprogram Single ready_port no_acks 250 10 [1, 2, 3, 4, 5, 6, 7, 8, 9, 10] fresh_seq)
        = Some (Inr [(250, 6), (256, 4)])"
    by code_simp
  with r1 have e1: "page_program_calls (events st1) = [(250, 6), (256, 4)]" by simp
  from s2 [THEN conjunct2, THEN mp, OF conjI [OF er conjI [OF na len(2)]]] obtain st2 where
    r2: "flprogram Dual ready_port no_acks 252 4 [1, 2, 3, 4] fresh_seq = Some (Inr st2)"
    by blast
  have "(252 + 4 - 1) div 256 = (252 :: int) div 256" by simp
  with s2 [where st' = st2, THEN conjunct1, THEN mp, OF r2]
  have e2: "page_program_calls (events st2) = [(252, 4)]"
    by (auto simp: fresh_seq_def)
  from r1 e1 r2 e2 er na show ?thesis by blast
qed

subsection \<open>C9: \<open>flreadid\<close>\<close>

text \<open>
  C9. \<open>flreadid\<close> writes the READ-ID opcode, then makes exactly four pairs of a dummy
  write and a read, and ends the frame with a de-select; the word it returns holds the
  low bytes of the four words read, the first in bits 31..24 and the last in bits 7..0.
\<close>

theorem flreadid_big_endian:
  "flreadid v port st =
     (push_bit 24 (port (nreads st) AND 0x0ff)
        OR push_bit 16 (port (nreads st + 1) AND 0x0ff)
        OR push_bit 8 (port (nreads st + 2) AND 0x0ff)
        OR (port (nreads st + 3) AND 0x0ff),
      st\<lparr>nreads := nreads st + 4,
         events := events st @
           [CfgWrite F_READID,
            CfgWrite (dummy v), CfgRead (port (nreads st)),
            CfgWrite (dummy v), CfgRead (port (nreads st + 1)),
            CfgWrite (dummy v), CfgRead (port (nreads st + 2)),
            CfgWrite (dummy v), CfgRead (port (nreads st + 3)),
            CfgWrite F_END]\<rparr>)"
proof -
  have e: "n + 2 = Suc (Suc n)" "n + 3 = Suc (Suc (Suc n))"
    "n + 4 = Suc (Suc (Suc (Suc n)))" for n :: nat
    by simp_all
  show ?thesis
    by (simp add: flreadid_def cfg_read_def cfg_write_def Let_def or.assoc e)
qed

theorem flreadid_big_endian_witness:
  "flreadid Dual id_port fresh_seq =
     (0x20ba1810,
      \<lparr>nreads = 4,
       events = [CfgWrite F_READID,
                 CfgWrite CFG_USERMODE, CfgRead 0x20,
                 CfgWrite CFG_USERMODE, CfgRead 0xba,
                 CfgWrite CFG_USERMODE, CfgRead 0x18,
                 CfgWrite CFG_USERMODE, CfgRead 0x10,
                 CfgWrite F_END]\<rparr>)"
  using flreadid_big_endian [of Dual id_port fresh_seq]
  by (simp add: id_port_def fresh_seq_def)

subsection \<open>C6: \<open>flerase\<close>\<close>

text \<open>
  C6, as stated, fails for spixpress\_tb.cpp, which has no \<open>take_offline\<close> and no
  \<open>place_online\<close>: the erase of sector \<open>0x10000\<close> on a device that is never busy
  issues twelve events, which neither begin with the four writes of \<open>take_offline\<close>
  (the second event is WREN, not RESET) nor end with the seven of \<open>place_online\<close>.
\<close>

theorem flerase_single_without_offline:
  "flerase Single ready_port 0x10000 fresh_seq =
     Some \<lparr>nreads = 1,
           events = [CfgWrite F_END, CfgWrite F_WREN, CfgWrite F_END, CfgWrite F_SE,
                     CfgWrite 1, CfgWrite 0, CfgWrite 0, CfgWrite F_END,
                     CfgWrite F_RDSR, CfgWrite 0, CfgRead 0, CfgWrite F_END]\<rparr>
   \<and> \<not> prefix offline_events
         [CfgWrite F_END, CfgWrite F_WREN, CfgWrite F_END, CfgWrite F_SE,
          CfgWrite 1, CfgWrite 0, CfgWrite 0, CfgWrite F_END,
          CfgWrite F_RDSR, CfgWrite 0, CfgRead 0, CfgWrite F_END]
   \<and> \<not> suffix online_events
         [CfgWrite F_END, CfgWrite F_WREN, CfgWrite F_END, CfgWrite F_SE,
          CfgWrite 1, CfgWrite 0, CfgWrite 0, CfgWrite F_END,
          CfgWrite F_RDSR, CfgWrite 0, CfgRead 0, CfgWrite F_END]"
proof (intro conjI)
  show "flerase Single ready_port 0x10000 fresh_seq =
     Some \<lparr>nreads = 1,
           events = [CfgWrite F_END, CfgWrite F_WREN, CfgWrite F_END, CfgWrite F_SE,
                     CfgWrite 1, CfgWrite 0, CfgWrite 0, CfgWrite F_END,
                     CfgWrite F_RDSR, CfgWrite 0, CfgRead 0, CfgWrite F_END]\<rparr>"
    by code_simp
  show "\<not> prefix offline_events
         [CfgWrite F_END, CfgWrite F_WREN, CfgWrite F_END, CfgWrite F_SE,
          CfgWrite 1, CfgWrite 0, CfgWrite 0, CfgWrite F_END,
          CfgWrite F_RDSR, CfgWrite 0, CfgRead 0, CfgWrite F_END]"
    by (simp add: offline_events_def F_RESET_def F_WREN_def CFG_USERMODE_def)
  show "\<not> suffix online_events
         [CfgWrite F_END, CfgWrite F_WREN, CfgWrite F_END, CfgWrite F_SE,
          CfgWrite 1, CfgWrite 0, CfgWrite 0, CfgWrite F_END,
          CfgWrite F_RDSR, CfgWrite 0, CfgRead 0, CfgWrite F_END]"
    by (simp add: online_events_def suffix_Cons F_END_def CFG_USERMODE_def CFG_USER_CS_n_def)
qed

text \<open>
  C6, amended. \<open>flerase\<close> returns exactly when the device reports ready after some
  number of busy status words, and then it has issued, in order: a de-select, WREN, a
  de-select; SE and three address bytes, the most significant first (the low byte of
  each word written is the address byte); a de-select; RDSR, a dummy write and a read for
  every status word up to the first that is not busy, a de-select. In
  dualflexpress\_tb.cpp this is preceded by \<open>take_offline\<close> and followed by
  \<open>place_online\<close>; in spixpress\_tb.cpp it is not.
\<close>

theorem flerase_sequence:
  "(flerase v port a st = Some st' \<longrightarrow>
      (\<exists>n. (\<forall>j<n. busy (port (nreads st + j))) \<and> \<not> busy (port (nreads st + n))
           \<and> events st' = events st
                 @ erase_events v a (map port [nreads st ..< nreads st + Suc n])))
   \<and> ((\<forall>j<m. busy (port (nreads st + j))) \<and> \<not> busy (port (nreads st + m)) \<longrightarrow>
         (\<exists>st''. flerase v port a st = Some st''
            \<and> events st'' = events st
                  @ erase_events v a (map port [nreads st ..< nreads st + Suc m])))
   \<and> user_byte v (drop_bit 16 a AND 0x0ff) AND 0x0ff = drop_bit 16 a AND 0x0ff
   \<and> user_byte v (drop_bit 8 a AND 0x0ff) AND 0x0ff = drop_bit 8 a AND 0x0ff
   \<and> user_byte v (a AND 0x0ff) AND 0x0ff = a AND 0x0ff"
proof (intro conjI impI)
  assume r: "flerase v port a st = Some st'"
  show "\<exists>n. (\<forall>j<n. busy (port (nreads st + j))) \<and> \<not> busy (port (nreads st + n))
           \<and> events st' = events st
                 @ erase_events v a (map port [nreads st ..< nreads st + Suc n])"
  proof (cases v)
    case Single
    with r have "flwait Single port (erase_frame Single a st) = Some st'" by simp
    from flwait_events [OF this] Single show ?thesis by auto
  next
    case Dual
    with r obtain st1 where
      w: "flwait Dual port (erase_frame Dual a (take_offline st)) = Some st1"
      and st': "st' = place_online st1" by auto
    from flwait_events [OF w] Dual st' show ?thesis
      by (auto simp: claimed_erase_events_def)
  qed
next
  assume "(\<forall>j<m. busy (port (nreads st + j))) \<and> \<not> busy (port (nreads st + m))"
  then have b: "\<forall>j<m. busy (port (nreads st + j))" and nb: "\<not> busy (port (nreads st + m))"
    by simp_all
  show "\<exists>st''. flerase v port a st = Some st''
            \<and> events st'' = events st
                  @ erase_events v a (map port [nreads st ..< nreads st + Suc m])"
  proof (cases v)
    case Single
    from flwait_ready [of m port "erase_frame Single a st" Single] b nb Single
    show ?thesis by auto
  next
    case Dual
    from flwait_ready [of m port "erase_frame Dual a (take_offline st)" Dual] b nb Dual
    show ?thesis by (auto simp: claimed_erase_events_def)
  qed
qed (rule user_byte_low)+

theorem flerase_sequence_witness:
  "flerase Dual busy_twice_port 0x123456 fresh_seq =
     Some \<lparr>nreads = 3,
           events = offline_events
             @ [CfgWrite F_END, CfgWrite F_WREN, CfgWrite F_END,
                CfgWrite F_SE, CfgWrite (CFG_USERMODE OR 0x12), CfgWrite (CFG_USERMODE OR 0x34),
                CfgWrite (CFG_USERMODE OR 0x56), CfgWrite F_END]
             @ [CfgWrite F_RDSR, CfgWrite CFG_USERMODE, CfgRead 3, CfgWrite CFG_USERMODE,
                CfgRead 3, CfgWrite CFG_USERMODE, CfgRead 0x1c, CfgWrite F_END]
             @ online_events\<rparr>
   \<and> busy (busy_twice_port 0) \<and> busy (busy_twice_port 1) \<and> \<not> busy (busy_twice_port 2)
   \<and> erase_events Dual 0x123456 [3, 3, 0x1c] =
        offline_events
             @ [CfgWrite F_END, CfgWrite F_WREN, CfgWrite F_END,
                CfgWrite F_SE, CfgWrite (CFG_USERMODE OR 0x12), CfgWrite (CFG_USERMODE OR 0x34),
                CfgWrite (CFG_USERMODE OR 0x56), CfgWrite F_END]
             @ [CfgWrite F_RDSR, CfgWrite CFG_USERMODE, CfgRead 3, CfgWrite CFG_USERMODE,
                CfgRead 3, CfgWrite CFG_USERMODE, CfgRead 0x1c, CfgWrite F_END]
             @ online_events"
proof -
  have run: "flerase Dual busy_twice_port 0x123456 fresh_seq =
     Some \<lparr>nreads = 3,
           events = offline_events
             @ [CfgWrite F_END, CfgWrite F_WREN, CfgWrite F_END,
                CfgWrite F_SE, CfgWrite (CFG_USERMODE OR 0x12), CfgWrite (CFG_USERMODE OR 0x34),
                CfgWrite (CFG_USERMODE OR 0x56), CfgWrite F_END]
             @ [CfgWrite F_RDSR, CfgWrite CFG_USERMODE, CfgRead 3, CfgWrite CFG_USERMODE,
                CfgRead 3, CfgWrite CFG_USERMODE, CfgRead 0x1c, CfgWrite F_END]
             @ online_events\<rparr>"
    by code_simp
  have b: "busy (busy_twice_port 0)" "busy (busy_twice_port 1)" "\<not> busy (busy_twice_port 2)"
    by (simp_all add: busy_def busy_twice_port_def)
  have ev: "erase_events Dual 0x123456 [3, 3, 0x1c] =
        offline_events
             @ [CfgWrite F_END, CfgWrite F_WREN, CfgWrite F_END,
                CfgWrite F_SE, CfgWrite (CFG_USERMODE OR 0x12), CfgWrite (CFG_USERMODE OR 0x34),
                CfgWrite (CFG_USERMODE OR 0x56), CfgWrite F_END]
             @ [CfgWrite F_RDSR, CfgWrite CFG_USERMODE, CfgRead 3, CfgWrite CFG_USERMODE,
                CfgRead 3, CfgWrite CFG_USERMODE, CfgRead 0x1c, CfgWrite F_END]
             @ online_events"
    by code_simp
  have pre: "(\<forall>j<2. busy (busy_twice_port (nreads fresh_seq + j)))
               \<and> \<not> busy (busy_twice_port (nreads fresh_seq + 2))"
    using b by (simp add: fresh_seq_def less_Suc_eq numeral_2_eq_2)
  from flerase_sequence [where v = Dual and port = busy_twice_port and a = "0x123456"
      and st = fresh_seq and m = 2, THEN conjunct2, THEN conjunct1, THEN mp, OF pre]
  obtain st'' where "flerase Dual busy_twice_port 0x123456 fresh_seq = Some st''" by blast
  from flerase_sequence [where v = Dual and port = busy_twice_port and a = "0x123456"
      and st = fresh_seq and st' = st'', THEN conjunct1, THEN mp, OF this]
  have "\<exists>n. events st'' = events fresh_seq
               @ erase_events Dual 0x123456 (map busy_twice_port [nreads fresh_seq ..< nreads fresh_seq + Suc n])"
    by blast
  with run b ev show ?thesis by blast
qed

subsection \<open>C8: how the scenario driver ends\<close>









end
